theory Spec2Isabelle
  imports Complex_Main
begin

section \<open>Python values and errors\<close>

text \<open>
  Every exception the modelled code can raise is a value of \<open>error\<close>; \<open>StructError\<close> is
  \<open>struct.error\<close>. Python's unbounded ints are \<open>int\<close>. The numbers of an action, of
  the mouse arithmetic and of the time control are Python ints and floats with their
  rounding (below); rewards, the coordinate \<open>y\<close> and the rates of the run
  configuration are exact rationals.
\<close>

datatype error = IndexError | ValueError | TypeError | ZeroDivisionError
  | AttributeError | UnboundLocalError | OverflowError | RuntimeError | StructError

text \<open>\<open>int(x)\<close> on a finite number truncates toward zero.\<close>

definition py_int :: "rat \<Rightarrow> int" where
  "py_int x = (if 0 \<le> x then \<lfloor>x\<rfloor> else \<lceil>x\<rceil>)"

text \<open>\<open>xs[i]\<close> on a tuple or list: negative indices count from the end, anything out of
  range raises \<open>IndexError\<close>.\<close>

definition py_index :: "'a list \<Rightarrow> int \<Rightarrow> error + 'a" where
  "py_index xs i =
     (if 0 \<le> i \<and> i < int (length xs) then Inr (xs ! nat i)
      else if i < 0 \<and> - int (length xs) \<le> i then Inr (xs ! nat (int (length xs) + i))
      else Inl IndexError)"

section \<open>Python numbers\<close>

subsection \<open>Floats\<close>

text \<open>
  A Python float is an IEEE 754 binary64 number: a finite value, an infinity or a NaN.
  The two zeros are one value, as \<open>==\<close> sees them, and so are all NaNs.
\<close>

datatype double = Finite rat | PosInf | NegInf | NaN

text \<open>The exponent of a positive number in a format whose least exponent is \<open>emin\<close>:
  the largest \<open>e\<close> from \<open>emin\<close> to \<open>emin + n\<close> with \<open>2 ^ e \<le> a\<close>, or \<open>emin\<close>.\<close>

fun exponent_from :: "int \<Rightarrow> rat \<Rightarrow> nat \<Rightarrow> int" where
  "exponent_from emin a 0 = emin"
| "exponent_from emin a (Suc n) =
     (if 2 powi (emin + int (Suc n)) \<le> a then emin + int (Suc n)
      else exponent_from emin a n)"

definition round_half_even :: "rat \<Rightarrow> int" where
  "round_half_even r =
     (let f = \<lfloor>r\<rfloor>; d = r - of_int f
      in if d < 1 / 2 then f else if 1 / 2 < d then f + 1 else if even f then f else f + 1)"

text \<open>
  Rounding to nearest, ties to even, in the binary format with \<open>t\<close> fraction bits and the
  exponents \<open>emin\<close> to \<open>emin + erange\<close>: the significand is rounded to an integer at the
  exponent of the number, which below \<open>2 ^ emin\<close> gives the subnormal numbers and zero;
  a result of \<open>2 ^ (emin + erange + 1)\<close> or more is an infinity.
\<close>

definition round_to_format :: "nat \<Rightarrow> int \<Rightarrow> nat \<Rightarrow> rat \<Rightarrow> double" where
  "round_to_format t emin erange x =
     (if x = 0 then Finite 0
      else (let a = \<bar>x\<bar>;
                e = exponent_from emin a erange;
                m = round_half_even (a * 2 powi (int t - e));
                v = of_int m * 2 powi (e - int t)
            in if 2 powi (emin + int erange + 1) \<le> v then (if x < 0 then NegInf else PosInf)
               else Finite (if x < 0 then - v else v)))"

text \<open>binary64, the format of a Python float, and binary32, the format of
  \<open>struct.pack("f", _)\<close>.\<close>

definition fl64 :: "rat \<Rightarrow> double" where
  "fl64 = round_to_format 52 (- 1022) 2045"

definition fl32 :: "rat \<Rightarrow> double" where
  "fl32 = round_to_format 23 (- 126) 253"

text \<open>A rational that is a float: rounding leaves it as it is.\<close>

definition representable :: "rat \<Rightarrow> bool" where
  "representable x = (fl64 x = Finite x)"

definition is_negative :: "double \<Rightarrow> bool" where
  "is_negative d = (case d of Finite x \<Rightarrow> x < 0 | NegInf \<Rightarrow> True | _ \<Rightarrow> False)"

text \<open>
  \<open>x * y\<close>, \<open>x + y\<close> and \<open>x / y\<close> on floats: the exact result rounded, with the IEEE 754
  rules for infinities and NaN. No float operation raises, except the division by
  zero, which is raised by \<open>py_truediv\<close> below.
\<close>

definition float_mul :: "double \<Rightarrow> double \<Rightarrow> double" where
  "float_mul x y =
     (if x = NaN \<or> y = NaN then NaN
      else case (x, y) of
             (Finite a, Finite b) \<Rightarrow> fl64 (a * b)
           | _ \<Rightarrow> if x = Finite 0 \<or> y = Finite 0 then NaN
                  else if is_negative x = is_negative y then PosInf else NegInf)"

definition float_add :: "double \<Rightarrow> double \<Rightarrow> double" where
  "float_add x y =
     (if x = NaN \<or> y = NaN then NaN
      else case (x, y) of
             (Finite a, Finite b) \<Rightarrow> fl64 (a + b)
           | (Finite a, _) \<Rightarrow> y
           | (_, Finite b) \<Rightarrow> x
           | _ \<Rightarrow> if x = y then x else NaN)"

definition float_div :: "double \<Rightarrow> double \<Rightarrow> double" where
  "float_div x y =
     (if x = NaN \<or> y = NaN then NaN
      else case (x, y) of
             (Finite a, Finite b) \<Rightarrow> fl64 (a / b)
           | (Finite a, _) \<Rightarrow> Finite 0
           | (_, Finite b) \<Rightarrow> if is_negative x = is_negative y then PosInf else NegInf
           | _ \<Rightarrow> NaN)"

subsection \<open>Ints and floats\<close>

text \<open>A number as Python has it: an \<open>int\<close> (a \<open>bool\<close> is one) or a \<open>float\<close>. NumPy
  scalars, whose arithmetic depends on their width, are not modelled.\<close>

datatype number = PyInt int | PyFloat double

text \<open>
  The conversion of an operand to a float when the other operand is one, and in
  \<open>struct.pack\<close>: an int is rounded to the nearest float, and one too large for any
  finite float raises \<open>OverflowError\<close>.
\<close>

definition to_double :: "number \<Rightarrow> error + double" where
  "to_double n =
     (case n of
        PyFloat d \<Rightarrow> Inr d
      | PyInt k \<Rightarrow> (case fl64 (of_int k) of Finite v \<Rightarrow> Inr (Finite v) | _ \<Rightarrow> Inl OverflowError))"

text \<open>
  \<open>x * y\<close> and \<open>x + y\<close>: exact on two ints, otherwise on the floats of the operands.
\<close>

definition py_mul :: "number \<Rightarrow> number \<Rightarrow> error + number" where
  "py_mul x y =
     (case (x, y) of
        (PyInt a, PyInt b) \<Rightarrow> Inr (PyInt (a * b))
      | _ \<Rightarrow> (case to_double x of
                Inl e \<Rightarrow> Inl e
              | Inr a \<Rightarrow> (case to_double y of
                           Inl e \<Rightarrow> Inl e
                         | Inr b \<Rightarrow> Inr (PyFloat (float_mul a b)))))"

definition py_add :: "number \<Rightarrow> number \<Rightarrow> error + number" where
  "py_add x y =
     (case (x, y) of
        (PyInt a, PyInt b) \<Rightarrow> Inr (PyInt (a + b))
      | _ \<Rightarrow> (case to_double x of
                Inl e \<Rightarrow> Inl e
              | Inr a \<Rightarrow> (case to_double y of
                           Inl e \<Rightarrow> Inl e
                         | Inr b \<Rightarrow> Inr (PyFloat (float_add a b)))))"

text \<open>
  \<open>x / y\<close>, which always gives a float. Two ints are divided exactly and the quotient is
  rounded once; a quotient too large for a float raises \<open>OverflowError\<close>. A divisor of
  zero raises \<open>ZeroDivisionError\<close>.
\<close>

definition py_truediv :: "number \<Rightarrow> number \<Rightarrow> error + number" where
  "py_truediv x y =
     (case (x, y) of
        (PyInt a, PyInt b) \<Rightarrow>
          if b = 0 then Inl ZeroDivisionError
          else (case fl64 (of_int a / of_int b) of
                  Finite v \<Rightarrow> Inr (PyFloat (Finite v))
                | _ \<Rightarrow> Inl OverflowError)
      | _ \<Rightarrow> (case to_double x of
                Inl e \<Rightarrow> Inl e
              | Inr a \<Rightarrow> (case to_double y of
                           Inl e \<Rightarrow> Inl e
                         | Inr b \<Rightarrow> if b = Finite 0 then Inl ZeroDivisionError
                                    else Inr (PyFloat (float_div a b)))))"

text \<open>\<open>int(x)\<close>: an int is itself, a finite float is truncated toward zero, an infinity
  raises \<open>OverflowError\<close> and a NaN \<open>ValueError\<close>.\<close>

definition number_int :: "number \<Rightarrow> error + int" where
  "number_int n =
     (case n of
        PyInt k \<Rightarrow> Inr k
      | PyFloat (Finite x) \<Rightarrow> Inr (py_int x)
      | PyFloat NaN \<Rightarrow> Inl ValueError
      | PyFloat _ \<Rightarrow> Inl OverflowError)"

text \<open>The exact value of a finite number.\<close>

definition value_of :: "number \<Rightarrow> rat option" where
  "value_of n =
     (case n of
        PyInt k \<Rightarrow> Some (of_int k)
      | PyFloat (Finite x) \<Rightarrow> Some x
      | PyFloat _ \<Rightarrow> None)"

text \<open>A list comprehension whose element expression may raise: the first exception, in
  the order of the list, ends it.\<close>

fun map_result :: "('a \<Rightarrow> error + 'b) \<Rightarrow> 'a list \<Rightarrow> error + 'b list" where
  "map_result f [] = Inr []"
| "map_result f (x # xs) =
     (case f x of
        Inl e \<Rightarrow> Inl e
      | Inr y \<Rightarrow> (case map_result f xs of Inl e \<Rightarrow> Inl e | Inr ys \<Rightarrow> Inr (y # ys)))"

text \<open>\<open>str(n)\<close> on an int: its decimal digits.\<close>

definition digit_char :: "nat \<Rightarrow> char" where
  "digit_char n = ''0123456789'' ! (n mod 10)"

function str_nat :: "nat \<Rightarrow> string" where
  "str_nat n = (if n < 10 then [digit_char n] else str_nat (n div 10) @ [digit_char n])"
  by pat_completeness auto

termination
  by (relation "measure (\<lambda>n. n)") auto

declare str_nat.simps [simp del]

definition str_int :: "int \<Rightarrow> string" where
  "str_int i = (if i < 0 then CHR ''-'' # str_nat (nat (- i)) else str_nat (nat i))"

section \<open>Data model of \<open>bounce_rl/environments/noita/noita_env.py\<close>\<close>

datatype NoitaState = UNKNOWN | RUNNING | GAME_OVER

text \<open>\<open>keyboard.MouseButton\<close>: the enum is declared outside the given sources; the two
  members the input table uses are modelled.\<close>

datatype MouseButton = LEFT | RIGHT

text \<open>An entry of the input table: \<open>None\<close>, a key name, or a mouse button.\<close>

datatype input = NoInput | Key string | Button MouseButton

text \<open>The run configuration dictionary, with the keys of \<open>_default_run_config\<close>. The
  resolution and the mouse scale, which enter the arithmetic on the action, are Python
  numbers.\<close>

record run_config =
  app :: string
  x_res :: number
  y_res :: number
  scale :: rat
  run_rate :: rat
  pause_rate :: rat
  step_duration :: rat
  pixels_every_n_episodes :: int
  scale_mouse_coords :: number
  use_x_proxy :: bool

definition default_run_config :: run_config where
  "default_run_config =
     \<lparr> app = ''Noita'', x_res = PyInt 640, y_res = PyInt 360, scale = 1, run_rate = 4,
       pause_rate = 2 / 100, step_duration = 166 / 1000, pixels_every_n_episodes = 1,
       scale_mouse_coords = PyInt 3, use_x_proxy = True \<rparr>"

text \<open>\<open>NoitaEnv._input_space()\<close>: index 0 of every dimension is \<open>None\<close>.\<close>

definition input_space :: "input list list" where
  "input_space =
     [ [NoInput, Key ''W'', Key ''S''],
       [NoInput, Key ''A'', Key ''D''],
       [NoInput, Key ''F''],
       [NoInput, Key ''E''],
       [NoInput, Key ''1'', Key ''3'', Key ''4''],
       [NoInput, Key ''5'', Key ''6'', Key ''7'', Key ''8''],
       [NoInput, Button LEFT, Button RIGHT] ]"

text \<open>The table of the older environment \<open>rewards/noita_env.py\<close>, whose \<open>__init__\<close>
  appends \<open>None\<close> to every dimension instead (\<open>x + (None,)\<close>).\<close>

definition legacy_input_space :: "input list list" where
  "legacy_input_space =
     map (\<lambda>x. x @ [NoInput])
       [ [Key ''W'', Key ''S''],
         [Key ''A'', Key ''D''],
         [Key ''F''],
         [Key ''E''],
         [Key ''1''],
         [Key ''5''],
         [Button LEFT, Button RIGHT] ]"

text \<open>The input channel \<open>harness.keyboard\<close>: what is held, and where the cursor is.\<close>

record Keyboard =
  held_keys :: "string set"
  held_mouse_buttons :: "MouseButton set"
  mouse_pos :: "number \<times> number"

text \<open>
  The argument of \<open>step\<close>: either one flat sequence of numbers (the flattened space of
  the SB3 wrapper) or a pair of sequences \<open>(discrete, continuous)\<close>.
\<close>

datatype action = Flat "number list" | Pair "number list" "number list"

text \<open>
  The info dictionary returned by the info source. \<open>noita_info\<close> is outside the given
  sources; the three keys the environment reads are modelled, with the types of the
  specification's interface \<open>{tick: int, is_alive: bool, y: number}\<close>. The field
  \<open>info_y\<close> is the key \<open>"y"\<close>.
\<close>

record info =
  tick :: int
  is_alive :: bool
  info_y :: rat

text \<open>The dataclass \<open>StepVal\<close>; the pixel array is a list of bytes.\<close>

record StepVal =
  pixels :: "nat list"
  reward :: rat
  terminated :: bool
  truncated :: bool
  info :: info
  ep_step :: int
  env_step :: int

section \<open>Episode policies\<close>

subsection \<open>\<open>TerminateOnOverworld\<close>\<close>

definition is_overworld :: "info \<Rightarrow> bool" where
  "is_overworld i = (if py_int (info_y i) < - 80 then True else False)"

text \<open>
  \<open>TerminateOnOverworld.__call__\<close>, as a function of the fields of the \<open>StepVal\<close> it is
  given. The policy has no attributes, and its \<open>reset\<close> does nothing.
\<close>

definition TerminateOnOverworld_call :: "StepVal \<Rightarrow> StepVal" where
  "TerminateOnOverworld_call step =
     (if is_overworld (info step) then step\<lparr>terminated := True\<rparr> else step)"

subsection \<open>\<open>TerminateOnSparseReward\<close>\<close>

text \<open>
  Modelled from the spec: \<open>LinearInterpolator\<close> of \<open>bounce_rl/utilities/util.py\<close>, which is
  not among the sources. The specification says the window size is "linearly
  interpolated between two (step, size) anchor points and clamped at the upper bound (no
  extrapolation beyond the configured range)": with \<open>extrapolate\<close> unset the argument is
  clamped to \<open>[x_0, x_1]\<close> before the line through the anchor points is evaluated.
\<close>

record LinearInterpolator =
  x_0 :: rat
  x_1 :: rat
  y_0 :: rat
  y_1 :: rat
  extrapolate :: bool

definition get_value :: "LinearInterpolator \<Rightarrow> rat \<Rightarrow> rat" where
  "get_value li x =
     (let x' = (if extrapolate li then x else max (x_0 li) (min (x_1 li) x))
      in y_0 li + (x' - x_0 li) * (y_1 li - y_0 li) / (x_1 li - x_0 li))"

text \<open>
  Modelled from the spec: \<open>GrowingCircularFIFOArray\<close> of \<open>bounce_rl/utilities/util.py\<close>,
  which is not among the sources. The specification calls it "a bounded time-windowed
  history of recent rewards" whose window size is given at every push:
  \<open>push(value, size)\<close> appends the value and keeps the most recent \<open>size\<close> entries, at
  most \<open>max_size\<close> of them; \<open>get_array()\<close> returns the entries kept, oldest first.
\<close>

datatype GrowingCircularFIFOArray = FIFO (fifo_max_size: nat) (get_array: "rat list")

definition push :: "rat \<Rightarrow> int \<Rightarrow> GrowingCircularFIFOArray \<Rightarrow> GrowingCircularFIFOArray" where
  "push v size_now q =
     (let entries = get_array q @ [v];
          keep = min (nat size_now) (fifo_max_size q)
      in FIFO (fifo_max_size q) (drop (length entries - keep) entries))"

text \<open>The attributes of a \<open>TerminateOnSparseReward\<close>. \<open>log_enabled\<close> is the attribute
  \<open>log\<close>, which only switches a message on.\<close>

record TerminateOnSparseReward =
  termination_penalty :: rat
  log_enabled :: bool
  max_size :: nat
  history_len :: LinearInterpolator
  reward_history :: GrowingCircularFIFOArray

text \<open>\<open>reset\<close>: a new history, with one non-zero reward pushed.\<close>

definition TerminateOnSparseReward_reset :: "TerminateOnSparseReward \<Rightarrow> TerminateOnSparseReward" where
  "TerminateOnSparseReward_reset p = p\<lparr>reward_history := push 1 1 (FIFO (max_size p) [])\<rparr>"

text \<open>\<open>__init__\<close>, with its defaults for the arguments that are \<open>None\<close>.\<close>

definition TerminateOnSparseReward_init ::
  "LinearInterpolator option \<Rightarrow> nat option \<Rightarrow> bool \<Rightarrow> TerminateOnSparseReward" where
  "TerminateOnSparseReward_init history_len_arg max_size_arg log_arg =
     TerminateOnSparseReward_reset
       \<lparr> termination_penalty = 10,
         log_enabled = log_arg,
         max_size = (case max_size_arg of None \<Rightarrow> 5 * 60 * 4 | Some m \<Rightarrow> m),
         history_len =
           (case history_len_arg of
              None \<Rightarrow> \<lparr> x_0 = 0, x_1 = 1000000, y_0 = 15 / 10 * 60 * 4, y_1 = 5 * 60 * 4,
                        extrapolate = False \<rparr>
            | Some li \<Rightarrow> li),
         reward_history = FIFO 0 [] \<rparr>"

text \<open>
  \<open>__call__\<close>: push the reward with the window size of this episode step; when no entry
  of the window is non-zero, subtract the penalty and set \<open>terminated\<close>. The policy and
  the \<open>StepVal\<close> are returned as updated.
\<close>

definition TerminateOnSparseReward_call ::
  "TerminateOnSparseReward \<Rightarrow> StepVal \<Rightarrow> TerminateOnSparseReward \<times> StepVal" where
  "TerminateOnSparseReward_call p step =
     (let h = push (reward step)
                (py_int (get_value (history_len p) (of_int (ep_step step))))
                (reward_history p);
          p' = p\<lparr>reward_history := h\<rparr>
      in if length (filter (\<lambda>r. r \<noteq> 0) (get_array h)) = 0
         then (p', step\<lparr>reward := reward step - termination_penalty p, terminated := True\<rparr>)
         else (p', step))"

text \<open>
  What \<open>__call__\<close> prints: when it terminates the episode and \<open>log\<close> is set, one line
  with the episode step.
\<close>

definition TerminateOnSparseReward_prints :: "TerminateOnSparseReward \<Rightarrow> StepVal \<Rightarrow> string list" where
  "TerminateOnSparseReward_prints p step =
     (let h = push (reward step)
                (py_int (get_value (history_len p) (of_int (ep_step step))))
                (reward_history p)
      in if length (filter (\<lambda>r. r \<noteq> 0) (get_array h)) = 0 \<and> log_enabled p
         then [''Terminated episode due to sparse reward at step '' @ str_int (ep_step step)
               @ ''.'']
         else [])"

text \<open>The policy applied once per step to a stream of step values, in order.\<close>

fun run_policy ::
  "TerminateOnSparseReward \<Rightarrow> StepVal list \<Rightarrow> TerminateOnSparseReward \<times> StepVal list" where
  "run_policy p [] = (p, [])"
| "run_policy p (s # ss) =
     (let called = TerminateOnSparseReward_call p s;
          rest = run_policy (fst called) ss
      in (fst rest, snd called # snd rest))"

subsection \<open>Step values and policies as objects\<close>

text \<open>
  A policy is called with a reference to a \<open>StepVal\<close> object, assigns to its attributes
  and returns the reference it was given; \<open>TerminateOnSparseReward\<close> also assigns to its
  own history. The store maps references to objects: step values and policies with
  attributes (\<open>TerminateOnOverworld\<close> has none). A reference that does not hold an object
  of the expected class, which the callers in \<open>step\<close> cannot produce, leaves the store as
  it is.
\<close>

type_synonym ref = nat

datatype object = StepObject StepVal | PolicyObject TerminateOnSparseReward

type_synonym store = "ref \<rightharpoonup> object"

definition TerminateOnOverworld_call_ref :: "store \<Rightarrow> ref \<Rightarrow> store \<times> ref" where
  "TerminateOnOverworld_call_ref h step =
     (case h step of
        Some (StepObject v) \<Rightarrow>
          (if is_overworld (info v) then h(step \<mapsto> StepObject (v\<lparr>terminated := True\<rparr>)) else h,
           step)
      | _ \<Rightarrow> (h, step))"

definition TerminateOnSparseReward_call_ref :: "store \<Rightarrow> ref \<Rightarrow> ref \<Rightarrow> store \<times> ref" where
  "TerminateOnSparseReward_call_ref h self step =
     (case (h self, h step) of
        (Some (PolicyObject p), Some (StepObject v)) \<Rightarrow>
          (let hist = push (reward v)
                        (py_int (get_value (history_len p) (of_int (ep_step v))))
                        (reward_history p);
               h1 = h(self \<mapsto> PolicyObject (p\<lparr>reward_history := hist\<rparr>))
           in if length (filter (\<lambda>r. r \<noteq> 0) (get_array hist)) = 0
              then (h1(step \<mapsto> StepObject (v\<lparr>reward := reward v - termination_penalty p,
                                               terminated := True\<rparr>)), step)
              else (h1, step))
      | _ \<Rightarrow> (h, step))"

section \<open>\<open>NoitaEnv.step\<close>: from the action to device inputs\<close>

text \<open>
  \<open>if len(action) == 9: action = action[0:7], action[7:9]\<close> followed by
  \<open>discrete_action, continuous_action = action\<close>. A pair has length 2. A flat sequence
  of another length than 9 fails: of length 2 its elements are unpacked but are not
  iterable (\<open>TypeError\<close>), of any other length the unpacking itself fails
  (\<open>ValueError\<close>).
\<close>

definition split_action :: "action \<Rightarrow> error + (number list \<times> number list)" where
  "split_action a =
     (case a of
        Pair ds cs \<Rightarrow> Inr (ds, cs)
      | Flat xs \<Rightarrow>
          if length xs = 9 then Inr (take 7 xs, drop 7 xs)
          else if length xs = 2 then Inl TypeError
          else Inl ValueError)"

text \<open>
  The loop \<open>for i, s in zip(discrete_action, self.input_space)\<close>, adding \<open>s[i]\<close> to the
  held keys or to the held mouse buttons unless it is \<open>None\<close>.
\<close>

fun held_inputs ::
  "(int \<times> input list) list \<Rightarrow> string set \<times> MouseButton set
     \<Rightarrow> error + (string set \<times> MouseButton set)" where
  "held_inputs [] acc = Inr acc"
| "held_inputs ((i, s) # rest) (keys, buttons) =
     (case py_index s i of
        Inl e \<Rightarrow> Inl e
      | Inr NoInput \<Rightarrow> held_inputs rest (keys, buttons)
      | Inr (Key k) \<Rightarrow> held_inputs rest (insert k keys, buttons)
      | Inr (Button b) \<Rightarrow> held_inputs rest (keys, insert b buttons))"

text \<open>
  The continuous part. The two list comprehensions run over the whole sequence:
  \<open>c * scale_mouse_coords\<close> for every element, then \<open>(c + 1) / 2\<close>, which maps
  \<open>[-1, 1]\<close> to \<open>[0, 1]\<close>. Then element 0 is multiplied by \<open>x_res\<close> and element 1 by
  \<open>y_res\<close>; reading an element the sequence does not have raises \<open>IndexError\<close>.
\<close>

definition mouse_position :: "run_config \<Rightarrow> number list \<Rightarrow> error + (number \<times> number)" where
  "mouse_position cfg continuous_action =
     (case map_result (\<lambda>c. py_mul c (scale_mouse_coords cfg)) continuous_action of
        Inl e \<Rightarrow> Inl e
      | Inr scaled \<Rightarrow>
          (case map_result
                  (\<lambda>c. case py_add c (PyInt 1) of
                          Inl e \<Rightarrow> Inl e
                        | Inr c1 \<Rightarrow> py_truediv c1 (PyInt 2)) scaled of
             Inl e \<Rightarrow> Inl e
           | Inr unit \<Rightarrow>
               (case py_index unit 0 of
                  Inl e \<Rightarrow> Inl e
                | Inr u0 \<Rightarrow>
                    (case py_mul u0 (x_res cfg) of
                       Inl e \<Rightarrow> Inl e
                     | Inr px \<Rightarrow>
                         (case py_index unit 1 of
                            Inl e \<Rightarrow> Inl e
                          | Inr u1 \<Rightarrow>
                              (case py_mul u1 (y_res cfg) of
                                 Inl e \<Rightarrow> Inl e
                               | Inr py \<Rightarrow> Inr (px, py)))))))"

text \<open>
  The first part of \<open>step\<close>, up to \<open>move_mouse\<close>, on the input channel:
  \<open>[int(x) for x in discrete_action]\<close>, the loop, and the continuous part. The channel
  is returned as far as it was updated when an exception is raised: the held keys and
  buttons are applied before the continuous action is looked at.
\<close>

definition apply_inputs ::
  "input list list \<Rightarrow> run_config \<Rightarrow> Keyboard \<Rightarrow> action \<Rightarrow> Keyboard \<times> error option" where
  "apply_inputs table cfg kb a =
     (case split_action a of
        Inl e \<Rightarrow> (kb, Some e)
      | Inr (discrete_action, continuous_action) \<Rightarrow>
          (case map_result number_int discrete_action of
             Inl e \<Rightarrow> (kb, Some e)
           | Inr indices \<Rightarrow>
               (case held_inputs (zip indices table) ({}, {}) of
                  Inl e \<Rightarrow> (kb, Some e)
                | Inr (keys, buttons) \<Rightarrow>
                    (let kb1 = kb\<lparr>held_keys := keys, held_mouse_buttons := buttons\<rparr>
                     in case mouse_position cfg continuous_action of
                          Inl e \<Rightarrow> (kb1, Some e)
                        | Inr p \<Rightarrow> (kb1\<lparr>mouse_pos := p\<rparr>, None)))))"

text \<open>
  The loop of the older environment \<open>rewards/noita_env.py\<close>, which indexes the table with
  the elements of the action as they are: an element that is not an int raises
  \<open>TypeError\<close>.
\<close>

fun legacy_held_inputs ::
  "(number \<times> input list) list \<Rightarrow> string set \<times> MouseButton set
     \<Rightarrow> error + (string set \<times> MouseButton set)" where
  "legacy_held_inputs [] acc = Inr acc"
| "legacy_held_inputs ((PyFloat d, s) # rest) acc = Inl TypeError"
| "legacy_held_inputs ((PyInt i, s) # rest) (keys, buttons) =
     (case py_index s i of
        Inl e \<Rightarrow> Inl e
      | Inr NoInput \<Rightarrow> legacy_held_inputs rest (keys, buttons)
      | Inr (Key k) \<Rightarrow> legacy_held_inputs rest (insert k keys, buttons)
      | Inr (Button b) \<Rightarrow> legacy_held_inputs rest (keys, insert b buttons))"

text \<open>
  Every value on the way from an element \<open>a\<close> of the action to its coordinate is a float:
  the element, the factor \<open>f\<close>, the resolution \<open>w\<close>, and the results of the four
  operations.
\<close>

definition exact_steps :: "rat \<Rightarrow> rat \<Rightarrow> rat \<Rightarrow> bool" where
  "exact_steps a f w =
     (representable a \<and> representable f \<and> representable w \<and> representable (a * f)
      \<and> representable (a * f + 1) \<and> representable ((a * f + 1) / 2)
      \<and> representable ((a * f + 1) / 2 * w))"

text \<open>A table whose every dimension starts with \<open>None\<close>.\<close>

definition none_first :: "input list list \<Rightarrow> bool" where
  "none_first table = list_all (\<lambda>s. case s of [] \<Rightarrow> False | x # _ \<Rightarrow> x = NoInput) table"

text \<open>The input channel of a freshly launched harness: nothing held.\<close>

definition released :: Keyboard where
  "released = \<lparr> held_keys = {}, held_mouse_buttons = {}, mouse_pos = (PyInt 0, PyInt 0) \<rparr>"

section \<open>Window sizes and example episodes\<close>

text \<open>The number of entries a push at step \<open>s\<close> keeps, and a step with the penalty
  applied.\<close>

definition window :: "TerminateOnSparseReward \<Rightarrow> StepVal \<Rightarrow> nat" where
  "window p s =
     min (nat (py_int (get_value (history_len p) (of_int (ep_step s)))))
       (fifo_max_size (reward_history p))"

definition penalised :: "TerminateOnSparseReward \<Rightarrow> StepVal \<Rightarrow> StepVal" where
  "penalised p s = s\<lparr>reward := reward s - termination_penalty p, terminated := True\<rparr>"

text \<open>The window size at a step, for a policy whose history was created by
  \<open>reset\<close>.\<close>

definition window_size :: "TerminateOnSparseReward \<Rightarrow> StepVal \<Rightarrow> nat" where
  "window_size p s =
     min (nat (py_int (get_value (history_len p) (of_int (ep_step s))))) (max_size p)"

text \<open>The policy \<open>NoitaEnv.__init__\<close> installs by default, and an episode of \<open>n\<close> steps
  with zero reward, numbered from 1 as \<open>step\<close> numbers them.\<close>

definition default_policy :: TerminateOnSparseReward where
  "default_policy = TerminateOnSparseReward_init None None True"

text \<open>A policy with a window of one step, which logs.\<close>

definition impatient_policy :: TerminateOnSparseReward where
  "impatient_policy = TerminateOnSparseReward_init None (Some 1) True"

definition zero_steps :: "nat \<Rightarrow> StepVal list" where
  "zero_steps n =
     map (\<lambda>k. \<lparr> pixels = [], reward = 0, terminated = False, truncated = False,
               info = \<lparr> tick = int k, is_alive = True, info_y = 0 \<rparr>,
               ep_step = int k, env_step = int k \<rparr>) [1..<Suc n]"

text \<open>A step value whose \<open>y\<close> is given.\<close>

definition example_step :: "rat \<Rightarrow> StepVal" where
  "example_step v =
     \<lparr> pixels = [], reward = 0, terminated = False, truncated = False,
       info = \<lparr> tick = 1, is_alive = True, info_y = v \<rparr>, ep_step = 1, env_step = 1 \<rparr>"

section \<open>The session controller\<close>

text \<open>
  What the environment does to its collaborators, in the order it does it: the calls to
  the time control, to \<open>time.sleep\<close>, to the harness, to the info source, and the
  messages \<open>reset\<close>, \<open>step\<close> and the episode policies print or log. The instance is
  passed to the time control as \<open>str(self.instance)\<close>; the event carries the number.
  \<open>SetUpMagicNumbers\<close> is the whole of \<open>_set_up_magic_numbers\<close>, the line it prints
  included.
\<close>

datatype event =
    SetSpeedup rat int
  | Sleep rat
  | HarnessNew
  | HarnessTick
  | HarnessCleanup
  | GetScreen
  | CurrentInfo
  | OnTick
  | KeySequence "string list"
  | SetUpMagicNumbers
  | Print string
  | Warning string

text \<open>An episode policy of \<open>step_wrappers\<close>, with its state.\<close>

datatype wrapper = Overworld | SparseReward TerminateOnSparseReward

fun wrapper_reset :: "wrapper \<Rightarrow> wrapper" where
  "wrapper_reset Overworld = Overworld"
| "wrapper_reset (SparseReward p) = SparseReward (TerminateOnSparseReward_reset p)"

fun wrapper_call :: "wrapper \<Rightarrow> StepVal \<Rightarrow> wrapper \<times> StepVal" where
  "wrapper_call Overworld step_val = (Overworld, TerminateOnOverworld_call step_val)"
| "wrapper_call (SparseReward p) step_val =
     (let called = TerminateOnSparseReward_call p step_val
      in (SparseReward (fst called), snd called))"

text \<open>What a call of a policy prints.\<close>

fun wrapper_prints :: "wrapper \<Rightarrow> StepVal \<Rightarrow> event list" where
  "wrapper_prints Overworld step_val = []"
| "wrapper_prints (SparseReward p) step_val =
     map Print (TerminateOnSparseReward_prints p step_val)"

text \<open>\<open>for wrapper in self.step_wrappers: step_val = wrapper(step_val)\<close>: the policies
  and the step value afterwards, and what the calls print.\<close>

fun apply_wrappers :: "wrapper list \<Rightarrow> StepVal \<Rightarrow> wrapper list \<times> StepVal" where
  "apply_wrappers [] step_val = ([], step_val)"
| "apply_wrappers (w # ws) step_val =
     (let called = wrapper_call w step_val;
          rest = apply_wrappers ws (snd called)
      in (fst called # fst rest, snd rest))"

fun wrappers_prints :: "wrapper list \<Rightarrow> StepVal \<Rightarrow> event list" where
  "wrappers_prints [] step_val = []"
| "wrappers_prints (w # ws) step_val =
     wrapper_prints w step_val @ wrappers_prints ws (snd (wrapper_call w step_val))"

text \<open>
  The attributes of a \<open>NoitaEnv\<close> that \<open>reset\<close> and \<open>step\<close> read and write. \<open>state\<close> and
  \<open>harness\<close> are \<open>None\<close> while the object has no such attribute; of the harness the input
  channel is kept. \<open>instance_id\<close> is the attribute \<open>instance\<close>. \<open>trace\<close> is not an
  attribute: it collects the events.
\<close>

record NoitaEnv =
  seed :: int
  run_config :: run_config
  instance_id :: int
  step_wrappers :: "wrapper list"
  ep_step :: int
  ep_num :: int
  env_step :: int
  state :: "NoitaState option"
  harness :: "Keyboard option"
  trace :: "event list"

subsection \<open>\<open>reset\<close>\<close>

text \<open>
  A launched harness, as the environment observes it while it waits: \<open>ready k\<close> is the
  value of \<open>harness.ready\<close> when it is read for the \<open>k\<close>-th time (from 0), and after \<open>k\<close>
  rounds of the waiting loop, each of which sleeps one second, the watchdog reads an
  elapsed time of \<open>k\<close> seconds and \<open>lateness k\<close> microseconds.
\<close>

record launch =
  ready :: "nat \<Rightarrow> bool"
  lateness :: "nat \<Rightarrow> nat"

definition elapsed_us :: "launch \<Rightarrow> nat \<Rightarrow> nat" where
  "elapsed_us l k = 1000000 * k + lateness l k"

text \<open>\<open>_wait_for_harness_init\<close>, from its \<open>k\<close>-th round on: the events and the result.\<close>

function wait_for_harness_init :: "launch \<Rightarrow> nat \<Rightarrow> event list \<times> bool" where
  "wait_for_harness_init l k =
     (if ready l k then ([], True)
      else if 45 * 1000000 < elapsed_us l (Suc k)
      then ([HarnessTick, Sleep 1, Print ''Harness init timed out.''], False)
      else (let rest = wait_for_harness_init l (Suc k)
            in ([HarnessTick, Sleep 1] @ fst rest, snd rest)))"
  by pat_completeness auto

termination
  by (relation "measure (\<lambda>(l, k). 45 - k)") (auto simp: elapsed_us_def)

declare wait_for_harness_init.simps [simp del]

text \<open>\<open>_run_init_sequence\<close> and \<open>_env_init\<close>.\<close>

definition run_init_sequence :: "NoitaEnv \<Rightarrow> NoitaEnv" where
  "run_init_sequence self =
     self\<lparr> harness := map_option (\<lambda>kb. kb\<lparr>mouse_pos := (PyInt 10, PyInt 10)\<rparr>) (harness self),
           trace := trace self @
             [Sleep (25 / 10), KeySequence [''Return'', ''Down'', ''Return'', ''Return''],
              Sleep 8] \<rparr>"

definition env_init :: "bool \<Rightarrow> NoitaEnv \<Rightarrow> NoitaEnv" where
  "env_init skip_startup self =
     (if \<not> skip_startup then run_init_sequence self else self)\<lparr>state := Some RUNNING\<rparr>"

text \<open>
  \<open>_try_reset_env\<close>, against the harness it launches: the environment afterwards, and
  whether the reset succeeded.
\<close>

definition try_reset_env :: "launch \<Rightarrow> bool \<Rightarrow> NoitaEnv \<Rightarrow> NoitaEnv \<times> bool" where
  "try_reset_env l skip_startup self =
     (let self1 = self\<lparr> ep_step := 0, ep_num := ep_num self + 1,
                       step_wrappers := map wrapper_reset (step_wrappers self) \<rparr>;
          self2 = (case harness self1 of
                     None \<Rightarrow> self1
                   | Some kb \<Rightarrow>
                       self1\<lparr> harness := Some (kb\<lparr>held_keys := {}\<rparr>),
                              trace := trace self1 @ [Sleep (1 / 10), HarnessCleanup, Sleep 1] \<rparr>);
          self3 = self2\<lparr> harness := Some released, state := Some UNKNOWN,
                        trace := trace self2 @ [SetUpMagicNumbers, HarnessNew] \<rparr>;
          waited = wait_for_harness_init l 0;
          self4 = self3\<lparr>trace := trace self3 @ fst waited\<rparr>
      in if \<not> snd waited
         then (self4\<lparr>harness := None, trace := trace self4 @ [HarnessCleanup]\<rparr>, False)
         else (env_init skip_startup self4, True))"

text \<open>
  The loop \<open>for i in range(3)\<close> of \<open>_reset_env\<close>, with \<open>n\<close> attempts left; attempt \<open>i\<close>
  launches the harness \<open>launches i\<close>. After the last failed attempt a \<open>RuntimeError\<close> is
  raised.
\<close>

fun reset_attempts ::
  "(nat \<Rightarrow> launch) \<Rightarrow> bool \<Rightarrow> nat \<Rightarrow> nat \<Rightarrow> NoitaEnv \<Rightarrow> NoitaEnv \<times> error option" where
  "reset_attempts launches skip_startup 0 i self = (self, Some RuntimeError)"
| "reset_attempts launches skip_startup (Suc n) i self =
     (let tried = try_reset_env (launches i) skip_startup self
      in if snd tried then (fst tried, None)
         else reset_attempts launches skip_startup n (Suc i)
                ((fst tried)\<lparr>trace := trace (fst tried) @
                   [Print ''WARNING: Failed to reset NoitaEnv. Retrying...'']\<rparr>))"

definition reset_env :: "(nat \<Rightarrow> launch) \<Rightarrow> bool \<Rightarrow> NoitaEnv \<Rightarrow> NoitaEnv \<times> error option" where
  "reset_env launches skip_startup self =
     reset_attempts launches skip_startup 3 0
       (self\<lparr>trace := trace self @ [SetSpeedup 1 (instance_id self)]\<rparr>)"

text \<open>
  \<open>reset\<close>: the new seed is stored, \<open>_reset_env\<close> runs with the start-up sequence, and the
  screen is returned.
\<close>

definition reset ::
  "(nat \<Rightarrow> launch) \<Rightarrow> nat list \<Rightarrow> int \<Rightarrow> NoitaEnv \<Rightarrow> NoitaEnv \<times> (error + nat list)" where
  "reset launches screen new_seed self =
     (let done = reset_env launches False (self\<lparr>seed := new_seed\<rparr>)
      in case snd done of
           Some e \<Rightarrow> (fst done, Inl e)
         | None \<Rightarrow> ((fst done)\<lparr>trace := trace (fst done) @ [GetScreen, OnTick]\<rparr>, Inr screen))"

subsection \<open>\<open>step\<close>\<close>

text \<open>
  What the collaborators answer during one \<open>step\<close>: \<open>current_info\<close> is the info read
  before the loop, \<open>on_tick i\<close> the info the \<open>i\<close>-th poll of the loop returns (from 0),
  \<open>get_screen\<close> the frame and \<open>reward_callback\<close> the reward function.
\<close>

record step_world =
  current_info :: info
  on_tick :: "nat \<Rightarrow> info"
  get_screen :: "nat list"
  reward_callback :: "info \<Rightarrow> rat"

text \<open>The warning \<open>step\<close> logs before it returns \<open>None\<close>, with the instance formatted
  into it.\<close>

definition stall_warning :: "int \<Rightarrow> event" where
  "stall_warning inst =
     Warning (''NoitaEnv: Failed to step the environment on instance: '' @ str_int inst @ ''.'')"

text \<open>One round of the loop of \<open>step\<close>, up to the poll.\<close>

definition poll_round :: "run_config \<Rightarrow> int \<Rightarrow> event list" where
  "poll_round cfg inst =
     [SetSpeedup (run_rate cfg) inst, Sleep (step_duration cfg / run_rate cfg),
      SetSpeedup (pause_rate cfg) inst, OnTick]"

text \<open>
  The loop \<open>for i in range(retries)\<close> of \<open>step\<close>, from round \<open>i\<close> on: the events, and the
  exception raised, the info of the poll that left the loop, or \<open>None\<close> when \<open>step\<close>
  returns \<open>None\<close>. The division raises when \<open>run_rate\<close> is 0 and \<open>time.sleep\<close> when its
  argument is negative. A loop of no rounds leaves \<open>info\<close> unbound.
\<close>

function poll_loop ::
  "run_config \<Rightarrow> int \<Rightarrow> (nat \<Rightarrow> info) \<Rightarrow> info \<Rightarrow> nat \<Rightarrow> nat
     \<Rightarrow> event list \<times> (error + info option)" where
  "poll_loop cfg inst polled init_info retries i =
     (if retries \<le> i then ([], Inl UnboundLocalError)
      else if run_rate cfg = 0 then ([SetSpeedup (run_rate cfg) inst], Inl ZeroDivisionError)
      else if step_duration cfg / run_rate cfg < 0
      then ([SetSpeedup (run_rate cfg) inst], Inl ValueError)
      else if tick (polled i) \<noteq> tick init_info
      then (poll_round cfg inst, Inr (Some (polled i)))
      else if i = retries - 1
      then (poll_round cfg inst @ [stall_warning inst], Inr None)
      else (let rest = poll_loop cfg inst polled init_info retries (Suc i)
            in (poll_round cfg inst @ fst rest, snd rest)))"
  by pat_completeness auto

termination
  by (relation "measure (\<lambda>(cfg, inst, polled, init_info, retries, i). retries - i)") auto

declare poll_loop.simps [simp del]

text \<open>
  The conversion of the action that precedes the first use of \<open>self.harness\<close>.
\<close>

definition discrete_inputs ::
  "input list list \<Rightarrow> action \<Rightarrow> error + (string set \<times> MouseButton set)" where
  "discrete_inputs table a =
     (case split_action a of
        Inl e \<Rightarrow> Inl e
      | Inr (discrete_action, continuous_action) \<Rightarrow>
          (case map_result number_int discrete_action of
             Inl e \<Rightarrow> Inl e
           | Inr indices \<Rightarrow> held_inputs (zip indices table) ({}, {})))"

text \<open>
  \<open>step\<close>. The counters are incremented first, and stay so when an exception is raised
  or \<open>None\<close> is returned. Without a harness the first use of \<open>self.harness\<close> raises.
  The result is the exception, \<open>None\<close>, or the tuple
  \<open>(pixels, reward, terminated or truncated, info)\<close>. The policies are called after the
  screen is read, and what they print follows it in the trace. Writing the step to disk
  is left out.
\<close>

definition step ::
  "step_world \<Rightarrow> action \<Rightarrow> NoitaEnv
     \<Rightarrow> NoitaEnv \<times> (error + (nat list \<times> rat \<times> bool \<times> info) option)" where
  "step w a self =
     (let self1 = self\<lparr>ep_step := ep_step self + 1, env_step := env_step self + 1\<rparr>
      in case harness self1 of
           None \<Rightarrow>
             (case discrete_inputs input_space a of
                Inl e \<Rightarrow> (self1, Inl e)
              | Inr _ \<Rightarrow> (self1, Inl AttributeError))
         | Some kb \<Rightarrow>
             (case apply_inputs input_space (run_config self1) kb a of
                (kb', Some e) \<Rightarrow> (self1\<lparr>harness := Some kb'\<rparr>, Inl e)
              | (kb', None) \<Rightarrow>
                  (let polled = poll_loop (run_config self1) (instance_id self1) (on_tick w)
                                  (current_info w) 20 0;
                       self2 = self1\<lparr> harness := Some kb',
                                     trace := trace self1 @ [HarnessTick, CurrentInfo] @ fst polled \<rparr>
                   in case snd polled of
                        Inl e \<Rightarrow> (self2, Inl e)
                      | Inr None \<Rightarrow> (self2, Inr None)
                      | Inr (Some i) \<Rightarrow>
                          (let step_val =
                                 \<lparr> pixels = get_screen w, reward = reward_callback w i,
                                   terminated = (\<not> is_alive i), truncated = False, info = i,
                                   StepVal.ep_step = ep_step self2,
                                   StepVal.env_step = env_step self2 \<rparr>;
                               wrapped = apply_wrappers (step_wrappers self2) step_val;
                               out = snd wrapped
                           in (self2\<lparr> step_wrappers := fst wrapped,
                                      trace := trace self2 @ [GetScreen] @
                                        wrappers_prints (step_wrappers self2) step_val \<rparr>,
                               Inr (Some (pixels out, reward out,
                                          terminated out \<or> truncated out, info out)))))))"

subsection \<open>Example environments and worlds\<close>

text \<open>An environment as \<open>__init__\<close> and a successful reset leave it, and two worlds: one
  whose tick counter stands still, one whose third poll shows a new tick.\<close>

definition running_env :: NoitaEnv where
  "running_env =
     \<lparr> seed = 1, run_config = default_run_config, instance_id = 0,
       step_wrappers = [Overworld, SparseReward default_policy],
       ep_step = 0, ep_num = 1, env_step = 0, state = Some RUNNING,
       harness = Some released, trace = [] \<rparr>"

definition stalled_world :: step_world where
  "stalled_world =
     \<lparr> current_info = \<lparr>tick = 5, is_alive = True, info_y = 0\<rparr>,
       on_tick = (\<lambda>i. \<lparr>tick = 5, is_alive = True, info_y = 0\<rparr>),
       get_screen = [], reward_callback = (\<lambda>i. 0) \<rparr>"

definition ticking_world :: step_world where
  "ticking_world =
     \<lparr> current_info = \<lparr>tick = 5, is_alive = True, info_y = 0\<rparr>,
       on_tick = (\<lambda>i. \<lparr>tick = (if i < 2 then 5 else 6), is_alive = True, info_y = 0\<rparr>),
       get_screen = [], reward_callback = (\<lambda>i. 0) \<rparr>"

text \<open>An environment whose sparse-reward policy has a window of one step and logs.\<close>

definition impatient_env :: NoitaEnv where
  "impatient_env = running_env\<lparr>step_wrappers := [Overworld, SparseReward impatient_policy]\<rparr>"

definition idle_action :: action where
  "idle_action =
     Pair [PyInt 0, PyInt 0, PyInt 0, PyInt 0, PyInt 0, PyInt 0, PyInt 0]
       [PyFloat (Finite 0), PyFloat (Finite 0)]"

subsection \<open>The events of a reset\<close>

definition wait_round :: "event list" where
  "wait_round = [HarnessTick, Sleep 1]"

definition timed_out :: event where
  "timed_out = Print ''Harness init timed out.''"

text \<open>The number of harnesses launched, as the trace records it.\<close>

definition count_launches :: "event list \<Rightarrow> nat" where
  "count_launches evs = length (filter (\<lambda>e. e = HarnessNew) evs)"

text \<open>The events of one attempt before the wait.\<close>

definition relaunch :: "NoitaEnv \<Rightarrow> event list" where
  "relaunch self =
     (case harness self of None \<Rightarrow> [] | Some kb \<Rightarrow> [Sleep (1 / 10), HarnessCleanup, Sleep 1]) @
     [SetUpMagicNumbers, HarnessNew]"

text \<open>The message before the next attempt.\<close>

definition retrying :: event where
  "retrying = Print ''WARNING: Failed to reset NoitaEnv. Retrying...''"

text \<open>A harness that never becomes ready and one that is ready at the fourth look, both
  with a clock that shows whole seconds.\<close>

definition never_ready :: launch where
  "never_ready = \<lparr> ready = (\<lambda>k. False), lateness = (\<lambda>k. 0) \<rparr>"

definition ready_at_3 :: launch where
  "ready_at_3 = \<lparr> ready = (\<lambda>k. 3 \<le> k), lateness = (\<lambda>k. 0) \<rparr>"

text \<open>Launches of which the third is the first to become ready.\<close>

definition third_time :: "nat \<Rightarrow> launch" where
  "third_time i = (if i < 2 then never_ready else ready_at_3)"

subsection \<open>The other operations, and a session\<close>

text \<open>\<open>close\<close>, \<open>pause\<close>, \<open>resume\<close> and \<open>run_info\<close>. The first three use \<open>self.harness\<close>.\<close>

definition close :: "NoitaEnv \<Rightarrow> NoitaEnv \<times> error option" where
  "close self =
     (case harness self of
        None \<Rightarrow> (self, Some AttributeError)
      | Some kb \<Rightarrow> (self\<lparr>harness := None, trace := trace self @ [HarnessCleanup]\<rparr>, None))"

definition pause :: "NoitaEnv \<Rightarrow> NoitaEnv \<times> error option" where
  "pause self =
     (case harness self of
        None \<Rightarrow> (self, Some AttributeError)
      | Some kb \<Rightarrow> (self\<lparr>trace := trace self @ [KeySequence [''Escape'']]\<rparr>, None))"

definition resume :: "NoitaEnv \<Rightarrow> NoitaEnv \<times> error option" where
  "resume self =
     (case harness self of
        None \<Rightarrow> (self, Some AttributeError)
      | Some kb \<Rightarrow> (self\<lparr>trace := trace self @ [KeySequence [''Escape'']]\<rparr>, None))"

definition run_info :: "NoitaEnv \<Rightarrow> (string \<times> int) list" where
  "run_info self = [(''episode_step'', ep_step self), (''environment_step'', env_step self)]"

text \<open>
  What a caller can do with an environment, each operation with what the collaborators
  answer while it runs, and the environment an operation leaves behind, whether it
  returns or raises.
\<close>

datatype operation =
    Step step_world action
  | Reset "nat \<Rightarrow> launch" "nat list" int
  | Close
  | Pause
  | Resume
  | RunInfo

fun perform :: "operation \<Rightarrow> NoitaEnv \<Rightarrow> NoitaEnv" where
  "perform (Step w a) self = fst (step w a self)"
| "perform (Reset launches screen new_seed) self = fst (reset launches screen new_seed self)"
| "perform Close self = fst (close self)"
| "perform Pause self = fst (pause self)"
| "perform Resume self = fst (resume self)"
| "perform RunInfo self = self"

section \<open>The time control channel\<close>

text \<open>
  \<open>struct.pack("f", x)\<close>, in the native mode the format selects: the number is converted to
  a float, which an int too large for one refuses (\<open>struct.error\<close> is raised); the float is
  cast to binary32, rounded to nearest with ties to even; and the four bytes of the
  result are written least significant first (the native order of the machines the
  harness runs on). The cast raises nothing: a float too large for binary32 becomes an
  infinity.
\<close>

definition cast32 :: "double \<Rightarrow> double" where
  "cast32 d = (case d of Finite v \<Rightarrow> fl32 v | _ \<Rightarrow> d)"

text \<open>The bit pattern of a binary32 value: the sign, 8 bits of exponent and 23 bits of
  fraction.\<close>

definition encode32 :: "double \<Rightarrow> int" where
  "encode32 d =
     (case d of
        NaN \<Rightarrow> 2143289344
      | PosInf \<Rightarrow> 2139095040
      | NegInf \<Rightarrow> 4286578688
      | Finite x \<Rightarrow>
          if x = 0 then 0
          else (let a = \<bar>x\<bar>;
                    e = exponent_from (- 126) a 253;
                    m = \<lfloor>a * 2 powi (23 - e)\<rfloor>;
                    bits = (e + 126) * 8388608 + m
                in if x < 0 then 2147483648 + bits else bits))"

definition pack_f :: "number \<Rightarrow> error + nat list" where
  "pack_f x =
     (case to_double x of
        Inl e \<Rightarrow> Inl StructError
      | Inr d \<Rightarrow>
          (let bits = encode32 (cast32 d)
           in Inr (map nat [bits mod 256, bits div 256 mod 256, bits div 65536 mod 256,
                            bits div 16777216 mod 256])))"

text \<open>
  The float that four bytes denote, least significant first: \<open>struct.unpack("f", _)\<close>,
  which is how the artifact is read.
\<close>

definition decode32 :: "int \<Rightarrow> double" where
  "decode32 bits =
     (let negative = (2147483648 \<le> bits);
          field = bits mod 2147483648 div 8388608;
          frac = bits mod 8388608
      in if field = 255
         then (if frac \<noteq> 0 then NaN else if negative then NegInf else PosInf)
         else (let v = (if field = 0 then of_int frac * 2 powi (- 149)
                        else of_int (8388608 + frac) * 2 powi (field - 150))
               in Finite (if negative then - v else v)))"

definition unpack_f :: "nat list \<Rightarrow> double option" where
  "unpack_f bytes =
     (case bytes of
        [b0, b1, b2, b3] \<Rightarrow>
          if b0 < 256 \<and> b1 < 256 \<and> b2 < 256 \<and> b3 < 256
          then Some (decode32 (int b0 + 256 * int b1 + 65536 * int b2 + 16777216 * int b3))
          else None
      | _ \<Rightarrow> None)"

text \<open>
  \<open>SetSpeedup(speedup)\<close> of \<open>src/time_writer.py\<close>, the one function of that name among the
  sources, on a file system that maps paths to contents. It has no instance: every
  caller writes \<open>/tmp/time_control\<close>. Opening the file for writing empties it before
  the number is packed.
\<close>

type_synonym files = "string \<rightharpoonup> nat list"

definition time_writer_SetSpeedup :: "number \<Rightarrow> files \<Rightarrow> files \<times> error option" where
  "time_writer_SetSpeedup speedup fs =
     (case pack_f speedup of
        Inl e \<Rightarrow> (fs(''/tmp/time_control'' \<mapsto> []), Some e)
      | Inr bytes \<Rightarrow> (fs(''/tmp/time_control'' \<mapsto> bytes), None))"

text \<open>A sequence of calls, as several environments make them, in order.\<close>

definition SetSpeedups :: "number list \<Rightarrow> files \<Rightarrow> files" where
  "SetSpeedups speedups fs = fold (\<lambda>m f. fst (time_writer_SetSpeedup m f)) speedups fs"

text \<open>
  Modelled from the spec: the two-argument \<open>SetSpeedup(speedup, instance)\<close> of
  \<open>bounce_rl/core/time_control/time_writer.py\<close>, which \<open>NoitaEnv\<close> calls and which is not
  among the sources. The specification's \<open>set_speed(multiplier, instance)\<close> "serializes
  the multiplier as a fixed-width binary float and atomically overwrites a per-instance
  addressable artifact": the artifacts are a map from the instance to the bytes, the
  bytes are those \<open>struct.pack("f", _)\<close> gives in the one-argument function, and a
  number that cannot be packed leaves the artifact as it was.
\<close>

definition set_speed :: "number \<Rightarrow> string \<Rightarrow> files \<Rightarrow> files \<times> error option" where
  "set_speed multiplier inst artifacts =
     (case pack_f multiplier of
        Inl e \<Rightarrow> (artifacts, Some e)
      | Inr bytes \<Rightarrow> (artifacts(inst \<mapsto> bytes), None))"

section \<open>Python numbers: theorems\<close>

lemma powi_less_cancel:
  assumes "(2::rat) powi m < 2 powi n"
  shows "m < n"
proof (rule ccontr)
  assume "\<not> m < n"
  then have "n \<le> m"
    by simp
  then have "(2::rat) powi n \<le> 2 powi m"
    by (rule power_int_increasing) simp
  with assms show False
    by simp
qed

lemma round_half_even_of_int: "round_half_even (of_int m) = m"
  by (simp add: round_half_even_def)

lemma exponent_from_bounds:
  "emin \<le> exponent_from emin a n \<and> exponent_from emin a n \<le> emin + int n"
  by (induction n) auto

lemma exponent_from_le:
  "emin < exponent_from emin a n \<Longrightarrow> 2 powi (exponent_from emin a n) \<le> a"
  by (induction n) (auto split: if_splits)

lemma exponent_from_gt:
  "a < 2 powi (emin + int n + 1) \<Longrightarrow> a < 2 powi (exponent_from emin a n + 1)"
proof (induction n)
  case 0
  then show ?case by simp
next
  case (Suc n)
  show ?case
  proof (cases "2 powi (emin + int (Suc n)) \<le> a")
    case True
    with Suc.prems show ?thesis by simp
  next
    case False
    then have "a < 2 powi (emin + int n + 1)"
      by (simp add: add.commute add.left_commute)
    with Suc.IH False show ?thesis by simp
  qed
qed

lemma exponent_from_le_exact:
  assumes "0 < a" and "a < 2 powi (e + 1)" and "emin \<le> e"
  shows "exponent_from emin a n \<le> e"
proof (cases "emin < exponent_from emin a n")
  case True
  then have "2 powi (exponent_from emin a n) \<le> a"
    by (rule exponent_from_le)
  with assms(2) have "(2::rat) powi (exponent_from emin a n) < 2 powi (e + 1)"
    by simp
  then have "exponent_from emin a n < e + 1"
    by (rule powi_less_cancel)
  then show ?thesis
    by simp
next
  case False
  with exponent_from_bounds [of emin a n] assms(3) show ?thesis
    by simp
qed

lemma scaled_mantissa_bound:
  assumes "\<bar>k\<bar> < 2 ^ Suc t"
  shows "\<bar>of_int k * 2 powi (e - int t)\<bar> < (2::rat) powi (e + 1)"
proof -
  have "(of_int \<bar>k\<bar> :: rat) < of_int (2 ^ Suc t)"
    using assms by (simp only: of_int_less_iff)
  then have "(of_int \<bar>k\<bar> :: rat) < 2 powi (int t + 1)"
    by (simp add: power_int_add)
  then have "of_int \<bar>k\<bar> * 2 powi (e - int t) < (2::rat) powi (int t + 1) * 2 powi (e - int t)"
    by (simp add: mult_strict_right_mono)
  also have "\<dots> = 2 powi (e + 1)"
    by (simp add: power_int_add [symmetric] add.commute)
  finally show ?thesis
    by (simp add: abs_mult)
qed

text \<open>
  A number \<open>k * 2 ^ (e - t)\<close> with a significand \<open>k\<close> of at most \<open>t + 1\<close> bits and an
  exponent \<open>e\<close> of the format, written at its own exponent \<open>E\<close>: the significand there is
  an integer \<open>M\<close> of at most \<open>t + 1\<close> bits, with the leading bit set unless the number is
  subnormal.
\<close>

lemma exponent_from_mantissa:
  assumes x: "x = of_int k * 2 powi (e - int t)" and k: "\<bar>k\<bar> < 2 ^ Suc t" and nz: "k \<noteq> 0"
    and lo: "emin \<le> e" and hi: "e \<le> emin + int erange"
  defines "E \<equiv> exponent_from emin \<bar>x\<bar> erange"
  shows "\<exists>M. \<bar>x\<bar> * 2 powi (int t - E) = of_int M \<and> 0 < M \<and> M < 2 ^ Suc t
           \<and> (emin < E \<longrightarrow> 2 ^ t \<le> M) \<and> emin \<le> E \<and> E \<le> emin + int erange
           \<and> \<bar>x\<bar> = of_int M * 2 powi (E - int t)
           \<and> \<bar>x\<bar> < 2 powi (emin + int erange + 1)"
proof -
  define a where "a = \<bar>x\<bar>"
  have a: "a = of_int \<bar>k\<bar> * 2 powi (e - int t)"
    by (simp add: a_def x abs_mult)
  from nz have pos: "0 < a"
    by (simp add: a)
  have below: "a < 2 powi (e + 1)"
    unfolding a_def x using k by (rule scaled_mantissa_bound)
  have "(2::rat) powi (e + 1) \<le> 2 powi (emin + int erange + 1)"
    using hi by (intro power_int_increasing) simp_all
  with below have top: "a < 2 powi (emin + int erange + 1)"
    by simp
  have E: "E = exponent_from emin a erange"
    by (simp add: E_def a_def)
  have Ee: "E \<le> e"
    unfolding E using pos below lo by (rule exponent_from_le_exact)
  have bounds: "emin \<le> E" "E \<le> emin + int erange"
    unfolding E using exponent_from_bounds [of emin a erange] by simp_all
  define M where "M = \<bar>k\<bar> * 2 ^ nat (e - E)"
  have "a * 2 powi (int t - E) = of_int \<bar>k\<bar> * (2 powi (e - int t) * 2 powi (int t - E))"
    by (simp add: a)
  also have "2 powi (e - int t) * 2 powi (int t - E) = (2::rat) powi (e - E)"
    by (simp add: power_int_add [symmetric])
  also have "(2::rat) powi (e - E) = of_int (2 ^ nat (e - E))"
    using Ee by (simp add: power_int_def)
  finally have scaled: "a * 2 powi (int t - E) = of_int M"
    by (simp add: M_def)
  have "of_int M * 2 powi (E - int t) = a * (2 powi (int t - E) * 2 powi (E - int t))"
    by (simp add: scaled [symmetric])
  also have "2 powi (int t - E) * 2 powi (E - int t) = (1::rat)"
    by (simp add: power_int_add [symmetric])
  finally have v: "a = of_int M * 2 powi (E - int t)"
    by simp
  from nz have Mpos: "0 < M"
    by (simp add: M_def)
  have "a < 2 powi (E + 1)"
    unfolding E using top by (rule exponent_from_gt)
  then have "a * 2 powi (int t - E) < 2 powi (E + 1) * 2 powi (int t - E)"
    by (simp add: mult_strict_right_mono)
  also have "2 powi (E + 1) * 2 powi (int t - E) = (2::rat) powi (int t + 1)"
    by (simp add: power_int_add [symmetric] add.commute)
  also have "\<dots> = of_int (2 ^ Suc t)"
    by (simp add: power_int_add)
  finally have "(of_int M :: rat) < of_int (2 ^ Suc t)"
    by (simp only: scaled)
  then have Mlt: "M < 2 ^ Suc t"
    by (simp only: of_int_less_iff)
  have Mge: "2 ^ t \<le> M" if "emin < E"
  proof -
    from that have "2 powi E \<le> a"
      unfolding E by (rule exponent_from_le)
    then have "2 powi E * 2 powi (int t - E) \<le> a * 2 powi (int t - E)"
      by (simp add: mult_right_mono)
    also have "2 powi E * 2 powi (int t - E) = (2::rat) powi (int t)"
      by (simp add: power_int_add [symmetric])
    also have "\<dots> = of_int (2 ^ t)"
      by simp
    finally have "(of_int (2 ^ t) :: rat) \<le> of_int M"
      by (simp only: scaled)
    then show ?thesis
      by (simp only: of_int_le_iff)
  qed
  from scaled Mpos Mlt Mge bounds v top show ?thesis
    unfolding a_def by blast
qed

text \<open>Rounding leaves a number of the format as it is.\<close>

lemma round_to_format_exact:
  assumes x: "x = of_int k * 2 powi (e - int t)" and k: "\<bar>k\<bar> < 2 ^ Suc t"
    and lo: "emin \<le> e" and hi: "e \<le> emin + int erange"
  shows "round_to_format t emin erange x = Finite x"
proof (cases "k = 0")
  case True
  with x show ?thesis
    by (simp add: round_to_format_def)
next
  case False
  define a where "a = \<bar>x\<bar>"
  define E where "E = exponent_from emin a erange"
  from exponent_from_mantissa [OF x k False lo hi]
  obtain M where scaled: "a * 2 powi (int t - E) = of_int M"
    and v: "a = of_int M * 2 powi (E - int t)"
    and top: "a < 2 powi (emin + int erange + 1)"
    unfolding E_def a_def by auto
  from False have nz: "x \<noteq> 0"
    by (simp add: x)
  have sign: "(if x < 0 then - a else a) = x"
    by (simp add: a_def)
  have "round_to_format t emin erange x =
      (if (2::rat) powi (emin + int erange + 1) \<le> of_int (round_half_even (a * 2 powi (int t - E))) * 2 powi (E - int t)
       then if x < 0 then NegInf else PosInf
       else Finite (if x < 0 then - (of_int (round_half_even (a * 2 powi (int t - E))) * 2 powi (E - int t))
                    else of_int (round_half_even (a * 2 powi (int t - E))) * 2 powi (E - int t)))"
    unfolding round_to_format_def Let_def a_def [symmetric] E_def [symmetric]
    using nz by (simp only: if_False)
  also have "\<dots> = Finite (if x < 0 then - a else a)"
    using top by (simp only: scaled round_half_even_of_int v [symmetric] not_le [symmetric] if_False)
  finally show ?thesis
    by (simp only: sign)
qed

lemma representable_scaled:
  assumes "\<bar>k\<bar> < 2 ^ 53" and "- 1074 \<le> j" and "j \<le> 971"
  shows "representable (of_int k * 2 powi j)"
proof -
  have "round_to_format 52 (- 1022) 2045 (of_int k * 2 powi j) = Finite (of_int k * 2 powi j)"
    using assms by (intro round_to_format_exact [where e = "j + 52" and k = k]) simp_all
  then show ?thesis
    by (simp add: representable_def fl64_def)
qed

lemma representable_of_int: "\<bar>k\<bar> < 2 ^ 53 \<Longrightarrow> representable (of_int k)"
  using representable_scaled [of k 0] by simp

lemma representable_numeral:
  "(numeral n :: int) < 2 ^ 53 \<Longrightarrow> representable (numeral n)"
  "(numeral n :: int) < 2 ^ 53 \<Longrightarrow> representable (- numeral n)"
  "representable 0" "representable 1" "representable (- 1)"
  using representable_of_int [of "numeral n"] representable_of_int [of "- numeral n"]
    representable_of_int [of 0] representable_of_int [of 1] representable_of_int [of "- 1"]
  by simp_all

lemma fl64_representable: "representable x \<Longrightarrow> fl64 x = Finite x"
  by (simp add: representable_def)

lemma float_ops_finite:
  "float_mul (Finite a) (Finite b) = fl64 (a * b)"
  "float_add (Finite a) (Finite b) = fl64 (a + b)"
  "float_div (Finite a) (Finite b) = fl64 (a / b)"
  by (simp_all add: float_mul_def float_add_def float_div_def)

lemma to_double_float: "to_double (PyFloat d) = Inr d"
  by (simp add: to_double_def)

lemma to_double_numeral:
  "to_double (PyInt 1) = Inr (Finite 1)" "to_double (PyInt 2) = Inr (Finite 2)"
  using fl64_representable [OF representable_numeral(4)]
    fl64_representable [OF representable_numeral(1), of "num.Bit0 num.One"]
  by (simp_all add: to_double_def)

lemma to_double_exact:
  "value_of n = Some v \<Longrightarrow> representable v \<Longrightarrow> to_double n = Inr (Finite v)"
  by (auto simp: value_of_def to_double_def representable_def split: number.splits double.splits)

lemma py_mul_exact:
  assumes "value_of x = Some a" and "value_of y = Some b"
    and "representable a" and "representable b" and "representable (a * b)"
  shows "\<exists>z. py_mul x y = Inr z \<and> value_of z = Some (a * b)"
proof -
  from assms have tx: "to_double x = Inr (Finite a)" and ty: "to_double y = Inr (Finite b)"
    by (simp_all add: to_double_exact)
  show ?thesis
  proof (cases x)
    case i: (PyInt i)
    show ?thesis
    proof (cases y)
      case (PyInt j)
      with i assms(1,2) show ?thesis
        by (auto simp: py_mul_def value_of_def)
    next
      case (PyFloat d)
      with i tx ty assms(5) show ?thesis
        by (simp add: py_mul_def float_ops_finite fl64_representable value_of_def)
    qed
  next
    case (PyFloat d)
    with tx ty assms(5) show ?thesis
      by (simp add: py_mul_def float_ops_finite fl64_representable value_of_def)
  qed
qed

lemma py_add_one_exact:
  assumes "value_of x = Some a" and "representable a" and "representable (a + 1)"
  shows "\<exists>z. py_add x (PyInt 1) = Inr z \<and> value_of z = Some (a + 1)"
proof (cases x)
  case (PyInt i)
  with assms(1) show ?thesis
    by (auto simp: py_add_def value_of_def)
next
  case (PyFloat d)
  from assms have "to_double x = Inr (Finite a)"
    by (simp add: to_double_exact)
  with PyFloat assms(3) show ?thesis
    by (simp add: py_add_def to_double_numeral float_ops_finite fl64_representable value_of_def)
qed

lemma py_halve_exact:
  assumes "value_of x = Some a" and "representable a" and "representable (a / 2)"
  shows "py_truediv x (PyInt 2) = Inr (PyFloat (Finite (a / 2)))"
proof (cases x)
  case (PyInt i)
  with assms(1) have "a = of_int i"
    by (simp add: value_of_def)
  with assms(3) show ?thesis
    by (simp add: py_truediv_def PyInt fl64_representable)
next
  case (PyFloat d)
  from assms have "to_double x = Inr (Finite a)"
    by (simp add: to_double_exact)
  with PyFloat assms(3) show ?thesis
    by (simp add: py_truediv_def to_double_numeral float_ops_finite fl64_representable)
qed

lemma py_mul_float_exact:
  assumes "value_of y = Some b" and "representable b" and "representable (u * b)"
  shows "py_mul (PyFloat (Finite u)) y = Inr (PyFloat (Finite (u * b)))"
proof -
  from assms have "to_double y = Inr (Finite b)"
    by (simp add: to_double_exact)
  with assms(3) show ?thesis
    by (cases y) (simp_all add: py_mul_def to_double_float float_ops_finite fl64_representable)
qed

lemma exponent_from_top:
  "2 powi (emin + int n) \<le> a \<Longrightarrow> exponent_from emin a n = emin + int n"
  by (cases n) simp_all

lemma exponent_from_eq:
  assumes "emin \<le> e" and "e \<le> emin + int n" and "2 powi e \<le> a" and "a < 2 powi (e + 1)"
  shows "exponent_from emin a n = e"
proof -
  have pos: "0 < a"
    using assms(3) by (rule less_le_trans [rotated]) simp
  have le: "exponent_from emin a n \<le> e"
    using pos assms(4,1) by (rule exponent_from_le_exact)
  have "e \<le> exponent_from emin a n"
    using assms(2,3)
  proof (induction n)
    case 0
    with assms(1) show ?case by simp
  next
    case (Suc n)
    show ?case
    proof (cases "2 powi (emin + int (Suc n)) \<le> a")
      case True
      with Suc.prems show ?thesis by simp
    next
      case False
      with Suc.prems(2) have "(2::rat) powi e < 2 powi (emin + int (Suc n))"
        by simp
      then have "e < emin + int (Suc n)"
        by (rule powi_less_cancel)
      then have "e \<le> emin + int n"
        by simp
      with Suc.IH Suc.prems(2) False show ?thesis by simp
    qed
  qed
  with le show ?thesis
    by simp
qed

text \<open>\<open>round_half_even\<close> gives a nearest integer, and is monotone.\<close>

lemma round_half_even_cases:
  "round_half_even r = \<lfloor>r\<rfloor> \<and> r - of_int \<lfloor>r\<rfloor> \<le> 1 / 2
   \<or> round_half_even r = \<lfloor>r\<rfloor> + 1 \<and> 1 / 2 \<le> r - of_int \<lfloor>r\<rfloor>"
  by (auto simp: round_half_even_def Let_def)

lemma round_half_even_nearest:
  "\<bar>r - of_int (round_half_even r)\<bar> \<le> \<bar>r - of_int j\<bar>"
proof -
  define f where "f = \<lfloor>r\<rfloor>"
  define d where "d = r - of_int f"
  have d: "0 \<le> d" "d < 1"
    unfolding d_def f_def by linarith+
  have r: "r = of_int f + d"
    by (simp add: d_def)
  consider "j \<le> f" | "f + 1 \<le> j"
    by linarith
  then have far: "d \<le> \<bar>r - of_int j\<bar> \<and> (j \<le> f \<or> 1 - d \<le> \<bar>r - of_int j\<bar>)
      \<and> (f + 1 \<le> j \<or> d \<le> \<bar>r - of_int j\<bar>) \<or> 1 - d \<le> \<bar>r - of_int j\<bar> \<and> f + 1 \<le> j"
  proof cases
    case 1
    then have "(of_int j :: rat) \<le> of_int f"
      by simp
    then have "d \<le> \<bar>r - of_int j\<bar>"
      unfolding r using d by linarith
    with 1 show ?thesis by simp
  next
    case 2
    then have "(of_int f :: rat) + 1 \<le> of_int j"
      by (metis of_int_1 of_int_add of_int_le_iff)
    then have "1 - d \<le> \<bar>r - of_int j\<bar>"
      unfolding r using d by linarith
    with 2 show ?thesis by simp
  qed
  from round_half_even_cases [of r]
  show ?thesis
  proof
    assume a: "round_half_even r = \<lfloor>r\<rfloor> \<and> r - of_int \<lfloor>r\<rfloor> \<le> 1 / 2"
    then have "\<bar>r - of_int (round_half_even r)\<bar> = d" and "d \<le> 1 / 2"
      using d by (simp_all add: d_def f_def)
    with far show ?thesis
      by linarith
  next
    assume a: "round_half_even r = \<lfloor>r\<rfloor> + 1 \<and> 1 / 2 \<le> r - of_int \<lfloor>r\<rfloor>"
    then have "\<bar>r - of_int (round_half_even r)\<bar> = 1 - d" and "1 / 2 \<le> d"
      using d by (simp_all add: d_def f_def)
    with far show ?thesis
      by linarith
  qed
qed

lemma round_half_even_mono: "of_int n \<le> r \<Longrightarrow> n \<le> round_half_even r"
proof -
  assume "of_int n \<le> r"
  then have "n \<le> \<lfloor>r\<rfloor>"
    by (simp add: le_floor_iff)
  with round_half_even_cases [of r] show ?thesis
    by auto
qed

lemma round_half_even_upper: "r \<le> of_int n \<Longrightarrow> round_half_even r \<le> n"
proof -
  assume le: "r \<le> of_int n"
  show ?thesis
  proof (cases "r = of_int n")
    case True
    then show ?thesis
      by (simp add: round_half_even_of_int)
  next
    case False
    with le have "r < of_int n"
      by simp
    then have "\<lfloor>r\<rfloor> < n"
      by (simp add: floor_less_iff)
    with round_half_even_cases [of r] show ?thesis
      by auto
  qed
qed

text \<open>
  The result of rounding, when it is finite, is a number of the format: a significand of
  at most \<open>t + 1\<close> bits at an exponent from \<open>emin\<close> to \<open>emin + erange\<close>.
\<close>

lemma round_to_format_range:
  assumes "round_to_format t emin erange x = Finite v"
  shows "\<exists>k e. v = of_int k * 2 powi (e - int t) \<and> \<bar>k\<bar> < 2 ^ Suc t
           \<and> emin \<le> e \<and> e \<le> emin + int erange"
proof (cases "x = 0")
  case True
  with assms have "v = of_int 0 * 2 powi (emin - int t)"
    by (simp add: round_to_format_def)
  then show ?thesis
    by (intro exI [of _ 0] exI [of _ emin]) simp
next
  case False
  define a where "a = \<bar>x\<bar>"
  define E where "E = exponent_from emin a erange"
  define r where "r = a * 2 powi (int t - E)"
  define m where "m = round_half_even r"
  define v' :: rat where "v' = of_int m * 2 powi (E - int t)"
  have result: "round_to_format t emin erange x =
      (if (2::rat) powi (emin + int erange + 1) \<le> v' then if x < 0 then NegInf else PosInf
       else Finite (if x < 0 then - v' else v'))"
    unfolding round_to_format_def Let_def a_def [symmetric] E_def [symmetric] r_def [symmetric]
      m_def [symmetric] v'_def [symmetric]
    using False by (simp only: if_False)
  with assms have top: "v' < 2 powi (emin + int erange + 1)"
    and v: "v = (if x < 0 then - v' else v')"
    by (auto split: if_splits)
  from False have pos: "0 < a"
    by (simp add: a_def)
  have bounds: "emin \<le> E" "E \<le> emin + int erange"
    unfolding E_def using exponent_from_bounds [of emin a erange] by simp_all
  have "0 \<le> r"
    unfolding r_def using pos by simp
  then have "of_int 0 \<le> r"
    by simp
  then have m0: "0 \<le> m"
    unfolding m_def by (rule round_half_even_mono)
  have below: "a < 2 powi (E + 1)"
  proof (rule ccontr)
    assume "\<not> a < 2 powi (E + 1)"
    then have ge: "2 powi (E + 1) \<le> a"
      by simp
    have "\<not> a < 2 powi (emin + int erange + 1)"
      using exponent_from_gt [of a emin erange] ge by (auto simp: E_def)
    then have "2 powi (emin + int erange + 1) \<le> a"
      by simp
    moreover have "(2::rat) powi (emin + int erange) \<le> 2 powi (emin + int erange + 1)"
      by (intro power_int_increasing) simp_all
    ultimately have "2 powi (emin + int erange) \<le> a"
      by simp
    then have E: "E = emin + int erange"
      unfolding E_def by (rule exponent_from_top)
    have "2 powi (E + 1) * 2 powi (int t - E) \<le> r"
      unfolding r_def using ge by (simp add: mult_right_mono)
    also have "2 powi (E + 1) * 2 powi (int t - E) = (2::rat) powi (int t + 1)"
      by (simp add: power_int_add [symmetric] add.commute)
    also have "\<dots> = of_int (2 ^ Suc t)"
      by (simp add: power_int_add)
    finally have "2 ^ Suc t \<le> m"
      unfolding m_def by (rule round_half_even_mono)
    then have "(of_int (2 ^ Suc t) :: rat) \<le> of_int m"
      by (simp only: of_int_le_iff)
    then have "of_int (2 ^ Suc t) * 2 powi (E - int t) \<le> v'"
      unfolding v'_def by (simp add: mult_right_mono)
    also have "of_int (2 ^ Suc t) * 2 powi (E - int t) = (2::rat) powi (int t + 1) * 2 powi (E - int t)"
      by (simp add: power_int_add)
    also have "\<dots> = 2 powi (E + 1)"
      by (simp add: power_int_add [symmetric] add.commute)
    finally have "2 powi (emin + int erange + 1) \<le> v'"
      by (simp add: E)
    with top show False
      by simp
  qed
  then have "r < 2 powi (E + 1) * 2 powi (int t - E)"
    unfolding r_def by (simp add: mult_strict_right_mono)
  also have "2 powi (E + 1) * 2 powi (int t - E) = (2::rat) powi (int t + 1)"
    by (simp add: power_int_add [symmetric] add.commute)
  also have "\<dots> = of_int (2 ^ Suc t)"
    by (simp add: power_int_add)
  finally have "r \<le> of_int (2 ^ Suc t)"
    by simp
  then have m1: "m \<le> 2 ^ Suc t"
    unfolding m_def by (rule round_half_even_upper)
  show ?thesis
  proof (cases "m < 2 ^ Suc t")
    case True
    define k where "k = (if x < 0 then - m else m)"
    have "v = of_int k * 2 powi (E - int t)"
      by (simp add: v v'_def k_def)
    moreover have "\<bar>k\<bar> < 2 ^ Suc t"
      using True m0 by (simp add: k_def)
    ultimately show ?thesis
      using bounds by blast
  next
    case False
    with m1 have m: "m = 2 ^ Suc t"
      by simp
    have "v' = (2::rat) powi (int t + 1) * 2 powi (E - int t)"
      by (simp add: v'_def m power_int_add)
    also have "\<dots> = 2 powi (E + 1)"
      by (simp add: power_int_add [symmetric] add.commute)
    finally have v'E: "v' = 2 powi (E + 1)" .
    with top have "(2::rat) powi (E + 1) < 2 powi (emin + int erange + 1)"
      by simp
    then have "E + 1 < emin + int erange + 1"
      by (rule powi_less_cancel)
    then have hi: "E + 1 \<le> emin + int erange"
      by simp
    define k :: int where "k = (if x < 0 then - (2 ^ t) else 2 ^ t)"
    have "(2::rat) powi (E + 1) = 2 powi (int t + (E + 1 - int t))"
      by simp
    also have "\<dots> = 2 powi (int t) * 2 powi (E + 1 - int t)"
      by (rule power_int_add) simp
    finally have "v' = of_int (2 ^ t) * 2 powi (E + 1 - int t)"
      by (simp add: v'E)
    then have "v = of_int k * 2 powi (E + 1 - int t)"
      by (simp add: v k_def)
    moreover have "\<bar>k\<bar> < 2 ^ Suc t"
      by (simp add: k_def)
    ultimately show ?thesis
      using bounds hi by (intro exI [of _ k] exI [of _ "E + 1"]) simp
  qed
qed

text \<open>
  The result of rounding, when it is finite, is as near to the number as any number of
  the format.
\<close>

lemma round_to_format_nearest:
  assumes "round_to_format t emin erange x = Finite v"
    and y: "y = of_int k * 2 powi (e - int t)" and k: "\<bar>k\<bar> < 2 ^ Suc t" and lo: "emin \<le> e"
  shows "\<bar>x - v\<bar> \<le> \<bar>x - y\<bar>"
proof (cases "x = 0")
  case True
  with assms(1) have "v = 0"
    by (simp add: round_to_format_def)
  with True show ?thesis
    by simp
next
  case False
  define a where "a = \<bar>x\<bar>"
  define E where "E = exponent_from emin a erange"
  define u :: rat where "u = 2 powi (E - int t)"
  define r where "r = a * 2 powi (int t - E)"
  define m where "m = round_half_even r"
  define v' where "v' = of_int m * u"
  have result: "round_to_format t emin erange x =
      (if (2::rat) powi (emin + int erange + 1) \<le> v' then if x < 0 then NegInf else PosInf
       else Finite (if x < 0 then - v' else v'))"
    unfolding round_to_format_def Let_def a_def [symmetric] E_def [symmetric] r_def [symmetric]
      m_def [symmetric] u_def [symmetric] v'_def [symmetric]
    using False by (simp only: if_False)
  with assms(1) have v: "v = (if x < 0 then - v' else v')"
    by (auto split: if_splits)
  from False have pos: "0 < a"
    by (simp add: a_def)
  have u: "0 < u"
    by (simp add: u_def)
  have "r * u = a * (2 powi (int t - E) * 2 powi (E - int t))"
    by (simp add: r_def u_def)
  also have "2 powi (int t - E) * 2 powi (E - int t) = (1::rat)"
    by (simp add: power_int_add [symmetric])
  finally have ru: "r * u = a"
    by simp
  have grid: "\<bar>a - v'\<bar> \<le> \<bar>a - of_int j * u\<bar>" for j
  proof -
    have "\<bar>a - v'\<bar> = \<bar>r - of_int m\<bar> * u"
      using u by (simp add: ru [symmetric] v'_def abs_mult left_diff_distrib [symmetric])
    also have "\<dots> \<le> \<bar>r - of_int j\<bar> * u"
      unfolding m_def using u round_half_even_nearest [of r j] by (simp add: mult_right_mono)
    also have "\<dots> = \<bar>a - of_int j * u\<bar>"
      using u by (simp add: ru [symmetric] abs_mult left_diff_distrib [symmetric])
    finally show ?thesis .
  qed
  have near: "\<bar>a - v'\<bar> \<le> \<bar>a - \<bar>y\<bar>\<bar>"
  proof (cases "E \<le> e")
    case True
    have "\<bar>y\<bar> = of_int \<bar>k\<bar> * (2 powi (e - E) * 2 powi (E - int t))"
      by (simp add: y abs_mult power_int_add [symmetric])
    also have "(2::rat) powi (e - E) = of_int (2 ^ nat (e - E))"
      using True by (simp add: power_int_def)
    finally have "\<bar>y\<bar> = of_int (\<bar>k\<bar> * 2 ^ nat (e - E)) * u"
      by (simp add: u_def)
    with grid [of "\<bar>k\<bar> * 2 ^ nat (e - E)"] show ?thesis
      by simp
  next
    case False
    then have eE: "e + 1 \<le> E"
      by simp
    with lo have "emin < E"
      by simp
    then have Ea: "2 powi E \<le> a"
      unfolding E_def by (rule exponent_from_le)
    have "\<bar>y\<bar> < 2 powi (e + 1)"
      unfolding y using k by (rule scaled_mantissa_bound)
    also have "(2::rat) powi (e + 1) \<le> 2 powi E"
      using eE by (intro power_int_increasing) simp_all
    finally have yE: "\<bar>y\<bar> < 2 powi E" .
    have "(2::rat) powi E = 2 powi (int t + (E - int t))"
      by simp
    also have "\<dots> = 2 powi (int t) * 2 powi (E - int t)"
      by (rule power_int_add) simp
    finally have "(2::rat) powi E = of_int (2 ^ t) * u"
      by (simp add: u_def)
    with grid [of "2 ^ t"] have "\<bar>a - v'\<bar> \<le> \<bar>a - 2 powi E\<bar>"
      by simp
    with Ea yE show ?thesis
      by linarith
  qed
  have "\<bar>a - \<bar>y\<bar>\<bar> \<le> \<bar>x - y\<bar>"
    unfolding a_def by (rule abs_triangle_ineq3)
  moreover have "\<bar>x - v\<bar> = \<bar>a - v'\<bar>"
  proof (cases "x < 0")
    case True
    then have "x - v = - (a - v')"
      by (simp add: v a_def)
    then show ?thesis
      by (simp only: abs_minus_cancel)
  next
    case False
    then show ?thesis
      by (simp add: v a_def)
  qed
  ultimately show ?thesis
    using near by simp
qed

text \<open>A number of the top of the format's range or more is rounded to an infinity.\<close>

lemma round_to_format_overflow:
  assumes "2 powi (emin + int erange + 1) \<le> \<bar>x\<bar>"
  shows "round_to_format t emin erange x = (if x < 0 then NegInf else PosInf)"
proof -
  define a where "a = \<bar>x\<bar>"
  define E where "E = exponent_from emin a erange"
  define r where "r = a * 2 powi (int t - E)"
  define m where "m = round_half_even r"
  define v' :: rat where "v' = of_int m * 2 powi (E - int t)"
  have nz: "x \<noteq> 0"
  proof
    assume "x = 0"
    with assms have "(2::rat) powi (emin + int erange + 1) \<le> 0"
      by simp
    moreover have "(0::rat) < 2 powi (emin + int erange + 1)"
      by simp
    ultimately show False
      by linarith
  qed
  have result: "round_to_format t emin erange x =
      (if (2::rat) powi (emin + int erange + 1) \<le> v' then if x < 0 then NegInf else PosInf
       else Finite (if x < 0 then - v' else v'))"
    unfolding round_to_format_def Let_def a_def [symmetric] E_def [symmetric] r_def [symmetric]
      m_def [symmetric] v'_def [symmetric]
    using nz by (simp only: if_False)
  have "(2::rat) powi (emin + int erange) \<le> 2 powi (emin + int erange + 1)"
    by (intro power_int_increasing) simp_all
  with assms have "2 powi (emin + int erange) \<le> a"
    by (simp add: a_def)
  then have E: "E = emin + int erange"
    unfolding E_def by (rule exponent_from_top)
  have "2 powi (E + 1) * 2 powi (int t - E) \<le> r"
    unfolding r_def using assms by (simp add: mult_right_mono E a_def)
  also have "2 powi (E + 1) * 2 powi (int t - E) = (2::rat) powi (int t + 1)"
    by (simp add: power_int_add [symmetric] add.commute)
  also have "\<dots> = of_int (2 ^ Suc t)"
    by (simp add: power_int_add)
  finally have "2 ^ Suc t \<le> m"
    unfolding m_def by (rule round_half_even_mono)
  then have "(of_int (2 ^ Suc t) :: rat) \<le> of_int m"
    by (simp only: of_int_le_iff)
  then have "of_int (2 ^ Suc t) * 2 powi (E - int t) \<le> v'"
    unfolding v'_def by (simp add: mult_right_mono)
  also have "of_int (2 ^ Suc t) * 2 powi (E - int t) = (2::rat) powi (int t + 1) * 2 powi (E - int t)"
    by (simp add: power_int_add)
  also have "\<dots> = 2 powi (E + 1)"
    by (simp add: power_int_add [symmetric] add.commute)
  finally have "2 powi (emin + int erange + 1) \<le> v'"
    by (simp add: E)
  with result show ?thesis
    by simp
qed

section \<open>Device inputs: theorems\<close>

lemma py_int_0: "py_int 0 = 0"
  by (simp add: py_int_def)

lemma py_int_1: "py_int 1 = 1"
  by (simp add: py_int_def)

lemma py_int_numeral: "py_int (numeral n) = numeral n"
  by (simp add: py_int_def)

lemma py_int_of_int: "py_int (of_int n) = n"
  by (simp add: py_int_def)

lemma none_first_input_space: "none_first input_space"
  by (simp add: none_first_def input_space_def)

lemma none_first_Cons:
  "none_first (s # table) \<Longrightarrow> py_index s 0 = Inr NoInput \<and> none_first table"
  by (cases s) (simp_all add: none_first_def py_index_def)

lemma held_inputs_zeros:
  "none_first table \<Longrightarrow> held_inputs (zip (replicate n 0) table) acc = Inr acc"
proof (induction n arbitrary: table)
  case 0
  then show ?case by simp
next
  case (Suc n)
  show ?case
  proof (cases table)
    case Nil
    then show ?thesis by simp
  next
    case (Cons s table')
    from Suc.prems Cons have s: "py_index s 0 = Inr NoInput" and t: "none_first table'"
      using none_first_Cons by blast+
    obtain keys buttons where acc: "acc = (keys, buttons)"
      by (cases acc)
    from Suc.IH [OF t] show ?thesis
      by (simp add: Cons s acc)
  qed
qed

lemma number_int_zeros:
  "set ds \<subseteq> {PyInt 0, PyFloat (Finite 0)} \<Longrightarrow>
     map_result number_int ds = Inr (replicate (length ds) 0)"
  by (induction ds) (auto simp: number_int_def py_int_0)

lemma py_mul_float:
  "py_mul (PyFloat d) y =
     (case to_double y of Inl e \<Rightarrow> Inl e | Inr b \<Rightarrow> Inr (PyFloat (float_mul d b)))"
  by (cases y) (simp_all add: py_mul_def to_double_float)

lemma remap_float:
  "py_add (PyFloat d) (PyInt 1) = Inr (PyFloat (float_add d (Finite 1)))"
  "py_truediv (PyFloat d) (PyInt 2) = Inr (PyFloat (float_div d (Finite 2)))"
  by (simp_all add: py_add_def py_truediv_def to_double_float to_double_numeral)

lemma py_index_pair: "py_index [x, y] 0 = Inr x" "py_index [x, y] 1 = Inr y"
  by (simp_all add: py_index_def)

text \<open>On floats no operation of the continuous part raises: the coordinates are the
  results of the four float operations, whatever they are.\<close>

lemma mouse_position_floats:
  assumes "to_double (scale_mouse_coords cfg) = Inr df"
    and "to_double (x_res cfg) = Inr dw" and "to_double (y_res cfg) = Inr dh"
  shows "mouse_position cfg [PyFloat d0, PyFloat d1] =
           Inr (PyFloat (float_mul (float_div (float_add (float_mul d0 df) (Finite 1)) (Finite 2)) dw),
                PyFloat (float_mul (float_div (float_add (float_mul d1 df) (Finite 1)) (Finite 2)) dh))"
  using assms by (simp add: mouse_position_def py_mul_float remap_float py_index_pair)

text \<open>Where every intermediate value is a float, the coordinates are the exact values of
  the formula, for ints and floats alike.\<close>

lemma mouse_position_exact:
  assumes c0: "value_of c0 = Some a0" and c1: "value_of c1 = Some a1"
    and f: "value_of (scale_mouse_coords cfg) = Some f"
    and w: "value_of (x_res cfg) = Some w" and h: "value_of (y_res cfg) = Some h"
    and e0: "exact_steps a0 f w" and e1: "exact_steps a1 f h"
  shows "mouse_position cfg [c0, c1] =
           Inr (PyFloat (Finite ((a0 * f + 1) / 2 * w)), PyFloat (Finite ((a1 * f + 1) / 2 * h)))"
proof -
  from py_mul_exact [OF c0 f] e0
  obtain s0 where s0: "py_mul c0 (scale_mouse_coords cfg) = Inr s0" "value_of s0 = Some (a0 * f)"
    by (auto simp: exact_steps_def)
  from py_mul_exact [OF c1 f] e1
  obtain s1 where s1: "py_mul c1 (scale_mouse_coords cfg) = Inr s1" "value_of s1 = Some (a1 * f)"
    by (auto simp: exact_steps_def)
  from py_add_one_exact [OF s0(2)] e0
  obtain t0 where t0: "py_add s0 (PyInt 1) = Inr t0" "value_of t0 = Some (a0 * f + 1)"
    by (auto simp: exact_steps_def)
  from py_add_one_exact [OF s1(2)] e1
  obtain t1 where t1: "py_add s1 (PyInt 1) = Inr t1" "value_of t1 = Some (a1 * f + 1)"
    by (auto simp: exact_steps_def)
  from py_halve_exact [OF t0(2)] e0
  have u0: "py_truediv t0 (PyInt 2) = Inr (PyFloat (Finite ((a0 * f + 1) / 2)))"
    by (simp add: exact_steps_def)
  from py_halve_exact [OF t1(2)] e1
  have u1: "py_truediv t1 (PyInt 2) = Inr (PyFloat (Finite ((a1 * f + 1) / 2)))"
    by (simp add: exact_steps_def)
  from py_mul_float_exact [OF w, of "(a0 * f + 1) / 2"] e0
  have p0: "py_mul (PyFloat (Finite ((a0 * f + 1) / 2))) (x_res cfg) =
      Inr (PyFloat (Finite ((a0 * f + 1) / 2 * w)))"
    by (simp add: exact_steps_def)
  from py_mul_float_exact [OF h, of "(a1 * f + 1) / 2"] e1
  have p1: "py_mul (PyFloat (Finite ((a1 * f + 1) / 2))) (y_res cfg) =
      Inr (PyFloat (Finite ((a1 * f + 1) / 2 * h)))"
    by (simp add: exact_steps_def)
  show ?thesis
    by (simp add: mouse_position_def s0 s1 t0 t1 u0 u1 p0 p1 py_index_pair)
qed

lemma exact_steps_corners:
  assumes "representable w"
  shows "exact_steps (- 1) 1 w" and "exact_steps 1 1 w"
  using assms representable_numeral(1) [of "num.Bit0 num.One"]
  by (simp_all add: exact_steps_def representable_numeral)

lemma default_values:
  "value_of (scale_mouse_coords default_run_config) = Some 3"
  "value_of (x_res default_run_config) = Some 640"
  "value_of (y_res default_run_config) = Some 360"
  by (simp_all add: default_run_config_def value_of_def)

lemma default_conversions:
  "to_double (scale_mouse_coords default_run_config) = Inr (Finite 3)"
  "to_double (x_res default_run_config) = Inr (Finite 640)"
  "to_double (y_res default_run_config) = Inr (Finite 360)"
  by (simp_all add: default_values to_double_exact representable_numeral)

lemma value_of_simps:
  "value_of (PyInt k) = Some (of_int k)" "value_of (PyFloat (Finite x)) = Some x"
  by (simp_all add: value_of_def)

lemma default_centre:
  "mouse_position default_run_config [PyFloat (Finite 0), PyFloat (Finite 0)] =
     Inr (PyFloat (Finite 320), PyFloat (Finite 180))"
  using mouse_position_exact [OF value_of_simps(2) value_of_simps(2) default_values, of 0 0]
  by (simp add: exact_steps_def representable_numeral representable_scaled [of 1 "- 1", simplified])

lemma default_corner_low:
  assumes "value_of c = Some (- 1)"
  shows "mouse_position default_run_config [c, c] =
           Inr (PyFloat (Finite (- 640)), PyFloat (Finite (- 360)))"
  using mouse_position_exact [OF assms assms default_values]
  by (simp add: exact_steps_def representable_numeral)

lemma default_corner_high:
  assumes "value_of c = Some 1"
  shows "mouse_position default_run_config [c, c] =
           Inr (PyFloat (Finite 1280), PyFloat (Finite 720))"
  using mouse_position_exact [OF assms assms default_values]
  by (simp add: exact_steps_def representable_numeral)

text \<open>
  Claim C1 (as amended). \<open>step\<close> multiplies each element of the continuous action by
  \<open>scale_mouse_coords\<close>, adds 1 and halves, and multiplies by the resolution, each
  operation in Python's arithmetic. On floats the coordinates are the results of the
  four float operations. Where every value on the way is a float, they are exactly
  \<open>(c * f + 1) / 2 * x_res\<close> and \<open>(c * f + 1) / 2 * y_res\<close>, and these are what
  \<open>move_mouse\<close> is given. With the factor 1 the action \<open>(-1, -1)\<close> is sent to the device
  coordinate \<open>(0, 0)\<close> and \<open>(1, 1)\<close> to \<open>(x_res, y_res)\<close>.
\<close>

theorem step_mouse_position:
  assumes "to_double (scale_mouse_coords cfg) = Inr df"
    and "to_double (x_res cfg) = Inr dw" and "to_double (y_res cfg) = Inr dh"
  shows "mouse_position cfg [PyFloat d0, PyFloat d1] =
           Inr (PyFloat (float_mul (float_div (float_add (float_mul d0 df) (Finite 1)) (Finite 2)) dw),
                PyFloat (float_mul (float_div (float_add (float_mul d1 df) (Finite 1)) (Finite 2)) dh))
         \<and> (value_of c0 = Some a0 \<and> value_of c1 = Some a1
              \<and> value_of (scale_mouse_coords cfg) = Some f
              \<and> value_of (x_res cfg) = Some w \<and> value_of (y_res cfg) = Some h
              \<and> exact_steps a0 f w \<and> exact_steps a1 f h \<longrightarrow>
              mouse_position cfg [c0, c1] =
                Inr (PyFloat (Finite ((a0 * f + 1) / 2 * w)), PyFloat (Finite ((a1 * f + 1) / 2 * h)))
              \<and> (map_result number_int ds = Inr indices
                   \<and> held_inputs (zip indices input_space) ({}, {}) = Inr (ks, bs) \<longrightarrow>
                   apply_inputs input_space cfg kb (Pair ds [c0, c1]) =
                     (kb\<lparr>held_keys := ks, held_mouse_buttons := bs,
                         mouse_pos := (PyFloat (Finite ((a0 * f + 1) / 2 * w)),
                                       PyFloat (Finite ((a1 * f + 1) / 2 * h)))\<rparr>, None)))
         \<and> (value_of (scale_mouse_coords cfg) = Some 1
              \<and> value_of (x_res cfg) = Some w \<and> value_of (y_res cfg) = Some h
              \<and> representable w \<and> representable h \<longrightarrow>
              (value_of c0 = Some (- 1) \<and> value_of c1 = Some (- 1) \<longrightarrow>
                 mouse_position cfg [c0, c1] = Inr (PyFloat (Finite 0), PyFloat (Finite 0)))
              \<and> (value_of c0 = Some 1 \<and> value_of c1 = Some 1 \<longrightarrow>
                   mouse_position cfg [c0, c1] = Inr (PyFloat (Finite w), PyFloat (Finite h))))"
proof (intro conjI impI)
  show "mouse_position cfg [PyFloat d0, PyFloat d1] =
      Inr (PyFloat (float_mul (float_div (float_add (float_mul d0 df) (Finite 1)) (Finite 2)) dw),
           PyFloat (float_mul (float_div (float_add (float_mul d1 df) (Finite 1)) (Finite 2)) dh))"
    using assms by (rule mouse_position_floats)
  {
    assume a: "value_of c0 = Some a0 \<and> value_of c1 = Some a1
        \<and> value_of (scale_mouse_coords cfg) = Some f
        \<and> value_of (x_res cfg) = Some w \<and> value_of (y_res cfg) = Some h
        \<and> exact_steps a0 f w \<and> exact_steps a1 f h"
    then show pos: "mouse_position cfg [c0, c1] =
        Inr (PyFloat (Finite ((a0 * f + 1) / 2 * w)), PyFloat (Finite ((a1 * f + 1) / 2 * h)))"
      by (intro mouse_position_exact) simp_all
    show "apply_inputs input_space cfg kb (Pair ds [c0, c1]) =
        (kb\<lparr>held_keys := ks, held_mouse_buttons := bs,
            mouse_pos := (PyFloat (Finite ((a0 * f + 1) / 2 * w)),
                          PyFloat (Finite ((a1 * f + 1) / 2 * h)))\<rparr>, None)"
      if "map_result number_int ds = Inr indices
          \<and> held_inputs (zip indices input_space) ({}, {}) = Inr (ks, bs)"
      using that pos by (simp add: apply_inputs_def split_action_def)
  }
  {
    assume a: "value_of (scale_mouse_coords cfg) = Some 1
        \<and> value_of (x_res cfg) = Some w \<and> value_of (y_res cfg) = Some h
        \<and> representable w \<and> representable h"
    show "mouse_position cfg [c0, c1] = Inr (PyFloat (Finite 0), PyFloat (Finite 0))"
      if "value_of c0 = Some (- 1) \<and> value_of c1 = Some (- 1)"
      using mouse_position_exact [of c0 "- 1" c1 "- 1" cfg 1 w h] a that
      by (simp add: exact_steps_corners)
    show "mouse_position cfg [c0, c1] = Inr (PyFloat (Finite w), PyFloat (Finite h))"
      if "value_of c0 = Some 1 \<and> value_of c1 = Some 1"
      using mouse_position_exact [of c0 1 c1 1 cfg 1 w h] a that
      by (simp add: exact_steps_corners)
  }
qed

text \<open>
  With the default configuration the centre of the action space lands in the middle of
  the screen and \<open>(0.5, 0)\<close> at \<open>(800, 180)\<close>; with a factor of 1 in place of the default
  3, the corners \<open>(-1, -1)\<close> and \<open>(1, 1)\<close>, given as ints or as floats, land on the corners
  \<open>(0, 0)\<close> and \<open>(640, 360)\<close> of the screen.
\<close>

theorem step_mouse_position_witness:
  "to_double (scale_mouse_coords default_run_config) = Inr (Finite 3)
   \<and> to_double (x_res default_run_config) = Inr (Finite 640)
   \<and> to_double (y_res default_run_config) = Inr (Finite 360)
   \<and> exact_steps (1 / 2) 3 640 \<and> exact_steps 0 3 360
   \<and> mouse_position default_run_config [PyFloat (Finite (1 / 2)), PyFloat (Finite 0)] =
       Inr (PyFloat (Finite 800), PyFloat (Finite 180))
   \<and> float_mul (float_div (float_add (float_mul (Finite (1 / 2)) (Finite 3)) (Finite 1)) (Finite 2))
         (Finite 640) = Finite 800
   \<and> apply_inputs input_space default_run_config released
         (Pair [PyInt 0] [PyFloat (Finite (1 / 2)), PyFloat (Finite 0)]) =
       (released\<lparr>held_keys := {}, held_mouse_buttons := {},
                 mouse_pos := (PyFloat (Finite 800), PyFloat (Finite 180))\<rparr>, None)
   \<and> mouse_position (default_run_config\<lparr>scale_mouse_coords := PyInt 1\<rparr>) [PyInt (- 1), PyInt (- 1)] =
       Inr (PyFloat (Finite 0), PyFloat (Finite 0))
   \<and> mouse_position (default_run_config\<lparr>scale_mouse_coords := PyInt 1\<rparr>)
         [PyFloat (Finite 1), PyFloat (Finite 1)] =
       Inr (PyFloat (Finite 640), PyFloat (Finite 360))"
proof -
  have half: "representable (1 / 2)" "representable (3 / 2)" "representable (5 / 2)"
    "representable (5 / 4)"
    using representable_scaled [of 1 "- 1"] representable_scaled [of 3 "- 1"]
      representable_scaled [of 5 "- 1"] representable_scaled [of 5 "- 2"]
    by simp_all
  have e: "exact_steps (1 / 2) 3 640" "exact_steps 0 3 360"
    by (simp_all add: exact_steps_def representable_numeral half)
  have held: "map_result number_int [PyInt 0] = Inr [0]
      \<and> held_inputs (zip [0] input_space) ({}, {}) = Inr ({}, {})"
    by (simp add: number_int_def input_space_def py_index_def)
  note main = step_mouse_position [OF default_conversions,
      of "Finite (1 / 2)" "Finite 0" "PyFloat (Finite (1 / 2))" "1 / 2" "PyFloat (Finite 0)" 0
        3 640 360 "[PyInt 0]" "[0]" "{}" "{}" released]
  have one: "to_double (scale_mouse_coords (default_run_config\<lparr>scale_mouse_coords := PyInt 1\<rparr>)) =
      Inr (Finite 1)"
    "to_double (x_res (default_run_config\<lparr>scale_mouse_coords := PyInt 1\<rparr>)) = Inr (Finite 640)"
    "to_double (y_res (default_run_config\<lparr>scale_mouse_coords := PyInt 1\<rparr>)) = Inr (Finite 360)"
    using default_conversions by (simp_all add: to_double_numeral)
  note lo = step_mouse_position [OF one, of _ _ "PyInt (- 1)" _ "PyInt (- 1)" _ _ 640 360]
  note hi = step_mouse_position [OF one, of _ _ "PyFloat (Finite 1)" _ "PyFloat (Finite 1)" _ _ 640 360]
  have pos: "mouse_position default_run_config [PyFloat (Finite (1 / 2)), PyFloat (Finite 0)] =
      Inr (PyFloat (Finite 800), PyFloat (Finite 180))"
    using main [THEN conjunct2, THEN conjunct1] e by (simp add: value_of_simps default_values)
  have ops: "float_mul (float_div (float_add (float_mul (Finite (1 / 2)) (Finite 3)) (Finite 1))
      (Finite 2)) (Finite 640) = Finite 800"
    using main [THEN conjunct1, unfolded pos] by simp
  have inputs: "apply_inputs input_space default_run_config released
      (Pair [PyInt 0] [PyFloat (Finite (1 / 2)), PyFloat (Finite 0)]) =
      (released\<lparr>held_keys := {}, held_mouse_buttons := {},
                mouse_pos := (PyFloat (Finite 800), PyFloat (Finite 180))\<rparr>, None)"
    using main [THEN conjunct2, THEN conjunct1] e held by (simp add: value_of_simps default_values)
  have corner_lo: "mouse_position (default_run_config\<lparr>scale_mouse_coords := PyInt 1\<rparr>)
      [PyInt (- 1), PyInt (- 1)] = Inr (PyFloat (Finite 0), PyFloat (Finite 0))"
    using lo [THEN conjunct2, THEN conjunct2]
    by (simp add: value_of_simps default_values representable_numeral)
  have corner_hi: "mouse_position (default_run_config\<lparr>scale_mouse_coords := PyInt 1\<rparr>)
      [PyFloat (Finite 1), PyFloat (Finite 1)] = Inr (PyFloat (Finite 640), PyFloat (Finite 360))"
    using hi [THEN conjunct2, THEN conjunct2]
    by (simp add: value_of_simps default_values representable_numeral)
  from default_conversions e pos ops inputs corner_lo corner_hi show ?thesis
    by simp
qed

text \<open>
  Claim C1 as stated fails for the default configuration, whose factor is 3: the action
  \<open>(-1, -1)\<close> is sent to \<open>(-640, -360)\<close>, not to \<open>(0, 0)\<close>, and \<open>(1, 1)\<close> to
  \<open>(1280, 720)\<close>, which is neither the resolution nor three times the resolution.
  Every operation on the way is exact.
\<close>

theorem step_mouse_position_counterexample:
  "mouse_position default_run_config [PyFloat (Finite (- 1)), PyFloat (Finite (- 1))] =
     Inr (PyFloat (Finite (- 640)), PyFloat (Finite (- 360)))
   \<and> mouse_position default_run_config [PyFloat (Finite 1), PyFloat (Finite 1)] =
       Inr (PyFloat (Finite 1280), PyFloat (Finite 720))
   \<and> mouse_position default_run_config [PyInt (- 1), PyInt (- 1)] =
       Inr (PyFloat (Finite (- 640)), PyFloat (Finite (- 360)))
   \<and> mouse_pos (fst (apply_inputs input_space default_run_config released
         (Pair [PyInt 0, PyInt 0, PyInt 0, PyInt 0, PyInt 0, PyInt 0, PyInt 0]
            [PyFloat (Finite (- 1)), PyFloat (Finite (- 1))]))) =
       (PyFloat (Finite (- 640)), PyFloat (Finite (- 360)))"
proof -
  have m: "mouse_position default_run_config [PyFloat (Finite (- 1)), PyFloat (Finite (- 1))] =
      Inr (PyFloat (Finite (- 640)), PyFloat (Finite (- 360)))"
    "mouse_position default_run_config [PyFloat (Finite 1), PyFloat (Finite 1)] =
      Inr (PyFloat (Finite 1280), PyFloat (Finite 720))"
    "mouse_position default_run_config [PyInt (- 1), PyInt (- 1)] =
      Inr (PyFloat (Finite (- 640)), PyFloat (Finite (- 360)))"
    by (simp_all add: default_corner_low default_corner_high value_of_simps)
  have "map_result number_int [PyInt 0, PyInt 0, PyInt 0, PyInt 0, PyInt 0, PyInt 0, PyInt 0] =
      Inr [0, 0, 0, 0, 0, 0, 0]"
    by (simp add: number_int_def)
  moreover have "held_inputs (zip [0, 0, 0, 0, 0, 0, 0] input_space) ({}, {}) = Inr ({}, {})"
    by (simp add: input_space_def py_index_def)
  ultimately show ?thesis
    using m by (simp add: apply_inputs_def split_action_def)
qed

text \<open>
  Claim C5 (as amended). In \<open>NoitaEnv.step\<close> of \<open>bounce_rl\<close>, a discrete action of zeros,
  of any length, selects index 0 of every dimension of the input table, which is
  \<open>None\<close>: the loop adds nothing, and the held keys and held mouse buttons applied to the
  input channel are both empty, whatever the continuous action is. The same holds for
  the flat form of the action.
\<close>

theorem zero_action_holds_nothing:
  assumes "set ds \<subseteq> {PyInt 0, PyFloat (Finite 0)}"
  shows "map_result number_int ds = Inr (replicate (length ds) 0)
         \<and> held_inputs (zip (replicate (length ds) 0) input_space) ({}, {}) = Inr ({}, {})
         \<and> held_keys (fst (apply_inputs input_space cfg kb (Pair ds cs))) = {}
         \<and> held_mouse_buttons (fst (apply_inputs input_space cfg kb (Pair ds cs))) = {}
         \<and> (length cs = 2 \<and> length ds = 7 \<longrightarrow>
              held_keys (fst (apply_inputs input_space cfg kb (Flat (ds @ cs)))) = {}
              \<and> held_mouse_buttons (fst (apply_inputs input_space cfg kb (Flat (ds @ cs)))) = {})"
proof -
  have ints: "map_result number_int ds = Inr (replicate (length ds) 0)"
    using assms by (rule number_int_zeros)
  have held: "held_inputs (zip (replicate (length ds) 0) input_space) ({}, {}) = Inr ({}, {})"
    using none_first_input_space by (rule held_inputs_zeros)
  have pair: "held_keys (fst (apply_inputs input_space cfg kb (Pair ds cs))) = {}
      \<and> held_mouse_buttons (fst (apply_inputs input_space cfg kb (Pair ds cs))) = {}"
    using ints held by (simp add: apply_inputs_def split_action_def Let_def split: sum.split)
  have "apply_inputs input_space cfg kb (Flat (ds @ cs)) =
      apply_inputs input_space cfg kb (Pair ds cs)"
    if "length cs = 2" and "length ds = 7"
    using that by (simp add: apply_inputs_def split_action_def)
  with ints held pair show ?thesis
    by simp
qed

theorem zero_action_holds_nothing_witness:
  "set [PyInt 0, PyInt 0, PyInt 0, PyInt 0, PyFloat (Finite 0), PyInt 0, PyInt 0]
     \<subseteq> {PyInt 0, PyFloat (Finite 0)}
   \<and> fst (apply_inputs input_space default_run_config
         \<lparr>held_keys = {''W''}, held_mouse_buttons = {LEFT}, mouse_pos = (PyInt 1, PyInt 1)\<rparr>
         (Pair [PyInt 0, PyInt 0, PyInt 0, PyInt 0, PyFloat (Finite 0), PyInt 0, PyInt 0]
            [PyFloat (Finite 0), PyFloat (Finite 0)])) =
       \<lparr>held_keys = {}, held_mouse_buttons = {},
        mouse_pos = (PyFloat (Finite 320), PyFloat (Finite 180))\<rparr>
   \<and> held_keys (fst (apply_inputs input_space default_run_config
         \<lparr>held_keys = {''W''}, held_mouse_buttons = {LEFT}, mouse_pos = (PyInt 1, PyInt 1)\<rparr>
         (Flat [PyInt 0, PyInt 0, PyInt 0, PyInt 0, PyFloat (Finite 0), PyInt 0, PyInt 0,
                PyFloat (Finite 0), PyFloat (Finite 0)]))) = {}
   \<and> held_mouse_buttons (fst (apply_inputs input_space default_run_config
         \<lparr>held_keys = {''W''}, held_mouse_buttons = {LEFT}, mouse_pos = (PyInt 1, PyInt 1)\<rparr>
         (Flat [PyInt 0, PyInt 0, PyInt 0, PyInt 0, PyFloat (Finite 0), PyInt 0, PyInt 0,
                PyFloat (Finite 0), PyFloat (Finite 0)]))) = {}"
proof -
  have z: "set [PyInt 0, PyInt 0, PyInt 0, PyInt 0, PyFloat (Finite 0), PyInt 0, PyInt 0]
      \<subseteq> {PyInt 0, PyFloat (Finite 0)}"
    by simp
  show ?thesis
    using zero_action_holds_nothing [OF z, of default_run_config
        "\<lparr>held_keys = {''W''}, held_mouse_buttons = {LEFT}, mouse_pos = (PyInt 1, PyInt 1)\<rparr>"
        "[PyFloat (Finite 0), PyFloat (Finite 0)]"]
    by (simp add: apply_inputs_def split_action_def default_centre)
qed

text \<open>
  Claim C5 as stated also names the table of the older environment
  \<open>rewards/noita_env.py\<close>, which ends every dimension with \<open>None\<close>: there index 0 is the
  first key of the dimension, and the action of zeros holds \<open>W\<close>, \<open>A\<close>, \<open>F\<close>, \<open>E\<close>, \<open>1\<close>,
  \<open>5\<close> and the left mouse button.
\<close>

theorem zero_action_holds_nothing_counterexample:
  "legacy_held_inputs
     (zip [PyInt 0, PyInt 0, PyInt 0, PyInt 0, PyInt 0, PyInt 0, PyInt 0] legacy_input_space)
     ({}, {}) =
     Inr ({''W'', ''A'', ''F'', ''E'', ''1'', ''5''}, {LEFT})"
  by (simp add: legacy_input_space_def py_index_def insert_commute)

text \<open>
  Claim C10. A flat action of length 9 is split into its first 7 elements, the discrete
  action, and its last 2, the continuous action, and is from there on treated as that
  pair: the input channel ends in the same state, with the same exception if any, and
  the whole of \<open>step\<close> does as it does for the pair.
\<close>

theorem flat_action_is_pair:
  assumes "length xs = 9"
  shows "split_action (Flat xs) = split_action (Pair (take 7 xs) (drop 7 xs))
         \<and> length (take 7 xs) = 7 \<and> length (drop 7 xs) = 2
         \<and> apply_inputs table cfg kb (Flat xs) =
             apply_inputs table cfg kb (Pair (take 7 xs) (drop 7 xs))
         \<and> step w (Flat xs) self = step w (Pair (take 7 xs) (drop 7 xs)) self"
proof -
  from assms have split: "split_action (Flat xs) = split_action (Pair (take 7 xs) (drop 7 xs))"
    by (simp add: split_action_def)
  have inputs: "apply_inputs t c k (Flat xs) = apply_inputs t c k (Pair (take 7 xs) (drop 7 xs))"
    for t c k
    by (simp only: apply_inputs_def split)
  have discrete: "discrete_inputs t (Flat xs) = discrete_inputs t (Pair (take 7 xs) (drop 7 xs))"
    for t
    by (simp only: discrete_inputs_def split)
  have "step w (Flat xs) self = step w (Pair (take 7 xs) (drop 7 xs)) self"
    by (simp only: step_def inputs discrete)
  with assms split inputs show ?thesis
    by simp
qed

theorem flat_action_is_pair_witness:
  "length [PyInt 1, PyInt 2, PyInt 0, PyInt 0, PyInt 0, PyInt 0, PyInt 1,
           PyFloat (Finite 0), PyFloat (Finite 0)] = 9
   \<and> apply_inputs input_space default_run_config released
         (Flat [PyInt 1, PyInt 2, PyInt 0, PyInt 0, PyInt 0, PyInt 0, PyInt 1,
                PyFloat (Finite 0), PyFloat (Finite 0)]) =
       apply_inputs input_space default_run_config released
         (Pair [PyInt 1, PyInt 2, PyInt 0, PyInt 0, PyInt 0, PyInt 0, PyInt 1]
            [PyFloat (Finite 0), PyFloat (Finite 0)])
   \<and> apply_inputs input_space default_run_config released
         (Flat [PyInt 1, PyInt 2, PyInt 0, PyInt 0, PyInt 0, PyInt 0, PyInt 1,
                PyFloat (Finite 0), PyFloat (Finite 0)]) =
       (\<lparr>held_keys = {''W'', ''D''}, held_mouse_buttons = {LEFT},
         mouse_pos = (PyFloat (Finite 320), PyFloat (Finite 180))\<rparr>,
        None)"
proof -
  have len: "length [PyInt 1, PyInt 2, PyInt 0, PyInt 0, PyInt 0, PyInt 0, PyInt 1,
      PyFloat (Finite 0), PyFloat (Finite 0)] = 9"
    by simp
  have "apply_inputs input_space default_run_config released
      (Pair [PyInt 1, PyInt 2, PyInt 0, PyInt 0, PyInt 0, PyInt 0, PyInt 1]
         [PyFloat (Finite 0), PyFloat (Finite 0)]) =
      (\<lparr>held_keys = {''W'', ''D''}, held_mouse_buttons = {LEFT},
        mouse_pos = (PyFloat (Finite 320), PyFloat (Finite 180))\<rparr>,
       None)"
    unfolding apply_inputs_def split_action_def
    by (simp add: number_int_def input_space_def py_index_def
        default_centre released_def insert_commute)
  with flat_action_is_pair [OF len, of input_space default_run_config released] show ?thesis
    by simp
qed

section \<open>Episode policies: theorems\<close>

lemma ex_le_Suc_shift: "(\<exists>i\<le>Suc n. P i) = (P 0 \<or> (\<exists>i\<le>n. P (Suc i)))"
proof
  assume "\<exists>i\<le>Suc n. P i"
  then obtain i where i: "i \<le> Suc n" "P i" by blast
  show "P 0 \<or> (\<exists>i\<le>n. P (Suc i))"
  proof (cases i)
    case 0 with i show ?thesis by simp
  next
    case (Suc k) with i show ?thesis by auto
  qed
next
  assume "P 0 \<or> (\<exists>i\<le>n. P (Suc i))"
  then show "\<exists>i\<le>Suc n. P i" by auto
qed

lemma call_fields:
  "history_len (fst (TerminateOnSparseReward_call p s)) = history_len p
   \<and> termination_penalty (fst (TerminateOnSparseReward_call p s)) = termination_penalty p
   \<and> max_size (fst (TerminateOnSparseReward_call p s)) = max_size p
   \<and> fifo_max_size (reward_history (fst (TerminateOnSparseReward_call p s))) =
       fifo_max_size (reward_history p)"
  by (simp add: TerminateOnSparseReward_call_def Let_def push_def)

lemma window_call: "window (fst (TerminateOnSparseReward_call p s)) = window p"
  by (rule ext) (simp add: window_def call_fields)

lemma penalised_call: "penalised (fst (TerminateOnSparseReward_call p s)) = penalised p"
  by (rule ext) (simp add: penalised_def call_fields)

lemma set_push: "set (get_array (push v n q)) \<subseteq> insert v (set (get_array q))"
proof -
  have "set (get_array (push v n q)) \<subseteq> set (get_array q @ [v])"
    unfolding push_def Let_def GrowingCircularFIFOArray.sel by (rule set_drop_subset)
  then show ?thesis
    by auto
qed

lemma snd_run_policy_Cons:
  "snd (run_policy p (s # ss)) =
     snd (TerminateOnSparseReward_call p s) # snd (run_policy (fst (TerminateOnSparseReward_call p s)) ss)"
  by (simp add: Let_def)

lemma length_run_policy: "length (snd (run_policy p ss)) = length ss"
  by (induction ss arbitrary: p) (simp_all add: Let_def)

lemma call_zeros:
  assumes "set (get_array (reward_history p)) \<subseteq> {0}" and "reward s = 0"
  shows "snd (TerminateOnSparseReward_call p s) = penalised p s
    \<and> set (get_array (reward_history (fst (TerminateOnSparseReward_call p s)))) \<subseteq> {0}"
proof -
  define h where "h = push (reward s)
      (py_int (get_value (history_len p) (of_int (StepVal.ep_step s)))) (reward_history p)"
  have "set (get_array h) \<subseteq> insert 0 (set (get_array (reward_history p)))"
    unfolding h_def using set_push [of "reward s"] assms(2) by simp
  with assms(1) have z: "set (get_array h) \<subseteq> {0}"
    by auto
  then have "filter (\<lambda>r. r \<noteq> 0) (get_array h) = []"
    by (auto simp: filter_empty_conv)
  with z show ?thesis
    unfolding TerminateOnSparseReward_call_def Let_def h_def [symmetric]
    by (simp add: penalised_def)
qed

lemma run_zeros:
  "set (get_array (reward_history p)) \<subseteq> {0} \<Longrightarrow> \<forall>s\<in>set ss. reward s = 0 \<Longrightarrow>
   snd (run_policy p ss) = map (penalised p) ss"
proof (induction ss arbitrary: p)
  case Nil
  then show ?case by simp
next
  case (Cons s ss)
  let ?p' = "fst (TerminateOnSparseReward_call p s)"
  from Cons.prems have c: "snd (TerminateOnSparseReward_call p s) = penalised p s"
    and z: "set (get_array (reward_history ?p')) \<subseteq> {0}"
    using call_zeros [of p s] by simp_all
  from Cons.prems have "snd (run_policy ?p' ss) = map (penalised ?p') ss"
    by (intro Cons.IH [OF z]) simp
  then show ?case
    by (simp only: snd_run_policy_Cons c penalised_call list.map)
qed

lemma call_seeded:
  assumes arr: "get_array (reward_history p) = 1 # replicate a 0" and r: "reward s = 0"
  shows "a + 2 \<le> window p s \<Longrightarrow>
           snd (TerminateOnSparseReward_call p s) = s
           \<and> get_array (reward_history (fst (TerminateOnSparseReward_call p s))) =
               1 # replicate (Suc a) 0"
    and "window p s < a + 2 \<Longrightarrow>
           snd (TerminateOnSparseReward_call p s) = penalised p s
           \<and> set (get_array (reward_history (fst (TerminateOnSparseReward_call p s)))) \<subseteq> {0}"
proof -
  define h where "h = push (reward s)
      (py_int (get_value (history_len p) (of_int (StepVal.ep_step s)))) (reward_history p)"
  have call: "TerminateOnSparseReward_call p s =
      (if length (filter (\<lambda>r. r \<noteq> 0) (get_array h)) = 0
       then (p\<lparr>reward_history := h\<rparr>, penalised p s) else (p\<lparr>reward_history := h\<rparr>, s))"
    unfolding TerminateOnSparseReward_call_def Let_def h_def penalised_def ..
  have h: "get_array h = drop (a + 2 - window p s) (1 # replicate a 0 @ [0])"
    unfolding h_def push_def Let_def window_def by (simp add: arr r)
  {
    assume "a + 2 \<le> window p s"
    then have "get_array h = 1 # replicate (Suc a) 0"
      by (simp add: h replicate_append_same)
    then show "snd (TerminateOnSparseReward_call p s) = s
           \<and> get_array (reward_history (fst (TerminateOnSparseReward_call p s))) =
               1 # replicate (Suc a) 0"
      by (simp add: call)
  }
  {
    assume "window p s < a + 2"
    then obtain k where k: "a + 2 - window p s = Suc k"
      by (cases "a + 2 - window p s") auto
    have "set (get_array h) \<subseteq> set (replicate a 0 @ [0::rat])"
      unfolding h k drop_Suc_Cons by (rule set_drop_subset)
    then have z: "set (get_array h) \<subseteq> {0}"
      by auto
    then have "filter (\<lambda>r. r \<noteq> 0) (get_array h) = []"
      by (auto simp: filter_empty_conv)
    with z show "snd (TerminateOnSparseReward_call p s) = penalised p s
           \<and> set (get_array (reward_history (fst (TerminateOnSparseReward_call p s)))) \<subseteq> {0}"
      by (simp add: call)
  }
qed

lemma run_seeded:
  assumes "get_array (reward_history p) = 1 # replicate a 0"
    and "\<forall>s\<in>set ss. reward s = 0" and "j < length ss"
  shows "snd (run_policy p ss) ! j =
           (if \<exists>i\<le>j. window p (ss ! i) < a + i + 2 then penalised p (ss ! j) else ss ! j)"
  using assms
proof (induction ss arbitrary: p a j)
  case Nil
  then show ?case by simp
next
  case (Cons s ss)
  let ?p' = "fst (TerminateOnSparseReward_call p s)"
  from Cons.prems(2) have r: "reward s = 0" and rs: "\<forall>s\<in>set ss. reward s = 0"
    by simp_all
  show ?case
  proof (cases "a + 2 \<le> window p s")
    case True
    from call_seeded(1) [OF Cons.prems(1) r True]
    have c: "snd (TerminateOnSparseReward_call p s) = s"
      and arr: "get_array (reward_history ?p') = 1 # replicate (Suc a) 0"
      by simp_all
    show ?thesis
    proof (cases j)
      case 0
      with True c show ?thesis
        by (simp add: Let_def)
    next
      case (Suc j')
      with Cons.prems(3) have j': "j' < length ss"
        by simp
      from Cons.IH [OF arr rs j'] True show ?thesis
        by (auto simp: Let_def Suc ex_le_Suc_shift window_call penalised_call)
    qed
  next
    case False
    then have lt: "window p s < a + 2"
      by simp
    from call_seeded(2) [OF Cons.prems(1) r lt]
    have c: "snd (TerminateOnSparseReward_call p s) = penalised p s"
      and z: "set (get_array (reward_history ?p')) \<subseteq> {0}"
      by simp_all
    have ex: "\<exists>i\<le>j. window p ((s # ss) ! i) < a + i + 2"
      using lt by (intro exI [of _ 0]) simp
    have "snd (run_policy p (s # ss)) = map (penalised p) (s # ss)"
      by (simp only: snd_run_policy_Cons c run_zeros [OF z rs] penalised_call list.map)
    with ex Cons.prems(3) show ?thesis
      by (simp only: nth_map if_True)
  qed
qed

lemma reset_seeded:
  "1 \<le> max_size p \<Longrightarrow>
     get_array (reward_history (TerminateOnSparseReward_reset p)) = 1 # replicate 0 0"
  by (simp add: TerminateOnSparseReward_reset_def push_def Let_def min_def)

lemma window_reset: "window (TerminateOnSparseReward_reset p) s = window_size p s"
  by (simp add: window_def window_size_def TerminateOnSparseReward_reset_def push_def Let_def)

lemma penalised_reset: "penalised (TerminateOnSparseReward_reset p) s = penalised p s"
  by (simp add: penalised_def TerminateOnSparseReward_reset_def)

lemma default_policy_fields:
  "max_size default_policy = 1200"
  "termination_penalty default_policy = 10"
  "history_len default_policy =
     \<lparr> x_0 = 0, x_1 = 1000000, y_0 = 360, y_1 = 1200, extrapolate = False \<rparr>"
  "TerminateOnSparseReward_reset default_policy = default_policy"
  by (simp_all add: default_policy_def TerminateOnSparseReward_init_def
      TerminateOnSparseReward_reset_def)

lemma default_get_value:
  "get_value (history_len default_policy) x =
     360 + max 0 (min 1000000 x) * 840 / 1000000"
  by (simp add: default_policy_fields get_value_def)

lemma default_window_ge: "360 \<le> window_size default_policy s"
proof -
  have "(360::rat) \<le> get_value (history_len default_policy) (of_int (StepVal.ep_step s))"
    unfolding default_get_value by simp
  then have "360 \<le> py_int (get_value (history_len default_policy) (of_int (StepVal.ep_step s)))"
    unfolding py_int_def by (simp add: le_floor_iff)
  then show ?thesis
    by (simp add: window_size_def default_policy_fields)
qed

lemma zero_steps_nth:
  "j < n \<Longrightarrow> zero_steps n ! j =
     \<lparr> pixels = [], reward = 0, terminated = False, truncated = False,
       info = \<lparr> tick = int (Suc j), is_alive = True, info_y = 0 \<rparr>,
       StepVal.ep_step = int (Suc j), StepVal.env_step = int (Suc j) \<rparr>"
  unfolding zero_steps_def by (simp del: upt_Suc)

lemma zero_steps_reward: "\<forall>s\<in>set (zero_steps n). reward s = 0"
  by (auto simp: zero_steps_def)

lemma length_zero_steps: "length (zero_steps n) = n"
  by (simp add: zero_steps_def)

lemma py_int_divide_numeral: "py_int (numeral a / numeral b) = numeral a div numeral b"
  using floor_divide_of_int_eq [of "numeral a" "numeral b", where ?'a = rat]
  by (simp add: py_int_def)

lemma py_int_neg_numeral: "py_int (- numeral a) = - numeral a"
  by (simp add: py_int_def)

lemma py_int_neg_divide_numeral:
  "py_int (- (numeral a / numeral b)) = - (numeral a div numeral b)"
proof -
  have "\<lceil>- (numeral a / numeral b :: rat)\<rceil> = - \<lfloor>(numeral a / numeral b :: rat)\<rfloor>"
    by (simp add: ceiling_def)
  also have "\<dots> = - (numeral a div numeral b)"
    using floor_divide_of_int_eq [of "numeral a" "numeral b", where ?'a = rat] by simp
  finally show ?thesis
    by (simp add: py_int_def)
qed

lemma default_window_360: "window_size default_policy (zero_steps 361 ! 359) = 360"
proof -
  have "get_value (history_len default_policy) (of_int 360) = 3603024 / 10000"
    unfolding default_get_value by simp
  then have "py_int (get_value (history_len default_policy) (of_int 360)) =
      py_int (3603024 / 10000)"
    by (simp only:)
  also have "\<dots> = 360"
    by (simp add: py_int_divide_numeral)
  finally show ?thesis
    by (simp add: zero_steps_nth window_size_def default_policy_fields(1))
qed

lemma default_fired_iff:
  assumes "j < 361"
  shows "(\<exists>i\<le>j. window_size default_policy (zero_steps 361 ! i) \<le> i + 1) = (359 \<le> j)"
proof (cases "359 \<le> j")
  case True
  have "window_size default_policy (zero_steps 361 ! 359) \<le> 359 + 1"
    by (simp add: default_window_360)
  with True show ?thesis
    by blast
next
  case False
  have "\<not> window_size default_policy (zero_steps 361 ! i) \<le> i + 1" if "i \<le> j" for i
    using default_window_ge [of "zero_steps 361 ! i"] that False by simp
  with False show ?thesis
    by blast
qed

lemma default_run:
  assumes "j < 361"
  shows "snd (run_policy default_policy (zero_steps 361)) ! j =
           (if 359 \<le> j then penalised default_policy (zero_steps 361 ! j)
            else zero_steps 361 ! j)"
proof -
  have seeded: "get_array (reward_history default_policy) = 1 # replicate 0 0"
    using reset_seeded [of default_policy] by (simp add: default_policy_fields)
  have w: "window default_policy = window_size default_policy"
    using window_reset [of default_policy] by (simp add: default_policy_fields(4) fun_eq_iff)
  from assms have j: "j < length (zero_steps 361)"
    by (simp add: length_zero_steps)
  have "(\<exists>i\<le>j. window default_policy (zero_steps 361 ! i) < 0 + i + 2) =
      (\<exists>i\<le>j. window_size default_policy (zero_steps 361 ! i) \<le> i + 1)"
    by (simp add: w less_Suc_eq_le)
  also have "\<dots> = (359 \<le> j)"
    using assms by (rule default_fired_iff)
  finally show ?thesis
    using run_seeded [OF seeded zero_steps_reward j] by (simp only:)
qed

text \<open>
  Claim C2 (as amended). A \<open>TerminateOnSparseReward\<close> that has been reset is applied
  once per step to a stream of steps whose rewards are all zero. Step \<open>j\<close> (counted
  from 0) comes back with \<open>terminated\<close> set and the penalty subtracted from its reward
  exactly when the window size of some step \<open>i \<le> j\<close> is at most \<open>i + 1\<close>, the number of
  that step: from the first step at which the window holds no non-zero entry, and at
  every step after it. Before that the entry pushed by \<open>reset\<close> is still in the window
  and the step comes back as it was.
\<close>

theorem sparse_reward_termination:
  assumes "\<forall>s\<in>set ss. reward s = 0" and "1 \<le> max_size p" and "j < length ss"
  shows "snd (run_policy (TerminateOnSparseReward_reset p) ss) ! j =
           (if \<exists>i\<le>j. window_size p (ss ! i) \<le> i + 1
            then (ss ! j)\<lparr>reward := - termination_penalty p, terminated := True\<rparr>
            else ss ! j)"
proof -
  from assms(1,3) have "reward (ss ! j) = 0"
    by simp
  then have pen: "penalised p (ss ! j) =
      (ss ! j)\<lparr>reward := - termination_penalty p, terminated := True\<rparr>"
    by (simp add: penalised_def)
  have "(\<exists>i\<le>j. window_size p (ss ! i) < 0 + i + 2) = (\<exists>i\<le>j. window_size p (ss ! i) \<le> i + 1)"
    by (simp add: less_Suc_eq_le)
  with run_seeded [OF reset_seeded [OF assms(2)] assms(1,3)] pen show ?thesis
    by (simp only: window_reset penalised_reset)
qed

text \<open>
  For the default policy the window size is 360 during the first steps of an episode:
  step 359 of an episode of zeros comes back unchanged, step 360 is terminated with the
  penalty 10. (Indices count from 0, so these are the elements 358 and 359.)
\<close>

theorem sparse_reward_termination_witness:
  "set (map reward (zero_steps 361)) \<subseteq> {0} \<and> 1 \<le> max_size default_policy
   \<and> 359 < length (zero_steps 361)
   \<and> snd (run_policy (TerminateOnSparseReward_reset default_policy) (zero_steps 361)) ! 358 =
       zero_steps 361 ! 358
   \<and> snd (run_policy (TerminateOnSparseReward_reset default_policy) (zero_steps 361)) ! 359 =
       (zero_steps 361 ! 359)\<lparr>reward := - 10, terminated := True\<rparr>"
proof -
  have m: "1 \<le> max_size default_policy"
    by (simp add: default_policy_fields)
  have l: "358 < length (zero_steps 361)" "359 < length (zero_steps 361)"
    by (simp_all add: length_zero_steps)
  have quiet: "\<not> (\<exists>i\<le>358. window_size default_policy (zero_steps 361 ! i) \<le> i + 1)"
    using default_fired_iff [of 358] by simp
  have fired: "\<exists>i\<le>359. window_size default_policy (zero_steps 361 ! i) \<le> i + 1"
    using default_fired_iff [of 359] by simp
  have "snd (run_policy (TerminateOnSparseReward_reset default_policy) (zero_steps 361)) ! 358 =
      zero_steps 361 ! 358"
    using sparse_reward_termination [OF zero_steps_reward m l(1)] quiet by (simp only: if_False)
  moreover
  have "snd (run_policy (TerminateOnSparseReward_reset default_policy) (zero_steps 361)) ! 359 =
      (zero_steps 361 ! 359)\<lparr>reward := - 10, terminated := True\<rparr>"
    using sparse_reward_termination [OF zero_steps_reward m l(2)] fired
    by (simp only: if_True default_policy_fields(2))
  moreover have "set (map reward (zero_steps 361)) \<subseteq> {0}"
    using zero_steps_reward [of 361] by auto
  ultimately show ?thesis
    using m l(2) by blast
qed

text \<open>
  Claim C2 as stated fails: on a stream of 361 zero rewards, longer than the window of
  360, the default policy sets \<open>terminated\<close> and subtracts the penalty at step 360 and
  again at step 361, not exactly once.
\<close>

theorem sparse_reward_termination_counterexample:
  "terminated (snd (run_policy default_policy (zero_steps 361)) ! 359)
   \<and> reward (snd (run_policy default_policy (zero_steps 361)) ! 359) = - 10
   \<and> terminated (snd (run_policy default_policy (zero_steps 361)) ! 360)
   \<and> reward (snd (run_policy default_policy (zero_steps 361)) ! 360) = - 10"
  by (simp add: default_run penalised_def default_policy_fields(2) zero_steps_nth)

lemma is_overworld_eq: "is_overworld i = (py_int (info_y i) < - 80)"
  by (simp add: is_overworld_def)

lemma is_overworld_iff: "is_overworld i = (info_y i \<le> - 81)"
proof (cases "0 \<le> info_y i")
  case True
  then have "0 \<le> py_int (info_y i)"
    by (simp add: py_int_def)
  with True show ?thesis
    by (simp add: is_overworld_eq)
next
  case False
  then have "py_int (info_y i) = \<lceil>info_y i\<rceil>"
    by (simp add: py_int_def)
  moreover have "(\<lceil>info_y i\<rceil> < - 80) = (\<lceil>info_y i\<rceil> \<le> - 81)"
    by auto
  ultimately show ?thesis
    by (simp add: is_overworld_eq ceiling_le_iff)
qed

text \<open>
  Claim C7 (as amended). \<open>TerminateOnOverworld\<close> keeps no state and changes no field but
  \<open>terminated\<close>, which it sets exactly when \<open>int(y)\<close>, the coordinate truncated toward
  zero, is below -80, that is when \<open>y \<le> -81\<close>; for an integer \<open>y\<close> this is \<open>y < -80\<close>. With
  \<open>y = -81\<close> the step comes back terminated, with \<open>y = -79\<close> it comes back as it was.
\<close>

theorem overworld_termination:
  "TerminateOnOverworld_call sv =
     sv\<lparr>terminated := terminated sv \<or> py_int (info_y (info sv)) < - 80\<rparr>
   \<and> (py_int (info_y (info sv)) < - 80) = (info_y (info sv) \<le> - 81)
   \<and> (info_y (info sv) = of_int n \<longrightarrow>
        TerminateOnOverworld_call sv = sv\<lparr>terminated := terminated sv \<or> n < - 80\<rparr>)
   \<and> (info_y (info sv) = - 81 \<longrightarrow> terminated (TerminateOnOverworld_call sv))
   \<and> (info_y (info sv) = - 79 \<longrightarrow> TerminateOnOverworld_call sv = sv)"
proof -
  have iff: "(py_int (info_y (info sv)) < - 80) = (info_y (info sv) \<le> - 81)"
    using is_overworld_iff [of "info sv"] by (simp add: is_overworld_eq)
  have call: "TerminateOnOverworld_call sv =
      sv\<lparr>terminated := terminated sv \<or> py_int (info_y (info sv)) < - 80\<rparr>"
    by (simp add: TerminateOnOverworld_call_def is_overworld_eq)
  have "TerminateOnOverworld_call sv = sv\<lparr>terminated := terminated sv \<or> n < - 80\<rparr>"
    if "info_y (info sv) = of_int n"
    using that by (simp add: call py_int_of_int)
  moreover have "terminated (TerminateOnOverworld_call sv)" if "info_y (info sv) = - 81"
    using that by (simp add: call py_int_neg_numeral)
  moreover have "TerminateOnOverworld_call sv = sv" if "info_y (info sv) = - 79"
    using that by (simp add: call py_int_neg_numeral)
  ultimately show ?thesis
    using iff call by blast
qed

theorem overworld_termination_witness:
  "info_y (info (example_step (- 81))) = of_int (- 81)
   \<and> TerminateOnOverworld_call (example_step (- 81)) = (example_step (- 81))\<lparr>terminated := True\<rparr>
   \<and> info_y (info (example_step (- 79))) = - 79
   \<and> TerminateOnOverworld_call (example_step (- 79)) = example_step (- 79)"
  using overworld_termination [of "example_step (- 81)" "- 81"]
    overworld_termination [of "example_step (- 79)" "- 79"]
  by (simp add: example_step_def)

text \<open>
  Claim C7 as stated fails between -81 and -80: \<open>y = -80.5\<close> is below the threshold, but
  \<open>int(-80.5) = -80\<close> is not, and the step is not terminated.
\<close>

theorem overworld_termination_counterexample:
  "info_y (info (example_step (- 161 / 2))) < - 80
   \<and> \<not> terminated (TerminateOnOverworld_call (example_step (- 161 / 2)))"
  by (simp add: example_step_def TerminateOnOverworld_call_def is_overworld_eq
      py_int_neg_divide_numeral)

lemma overworld_call_fields:
  "pixels (TerminateOnOverworld_call v) = pixels v
   \<and> reward (TerminateOnOverworld_call v) = reward v
   \<and> truncated (TerminateOnOverworld_call v) = truncated v
   \<and> info (TerminateOnOverworld_call v) = info v
   \<and> StepVal.ep_step (TerminateOnOverworld_call v) = StepVal.ep_step v
   \<and> StepVal.env_step (TerminateOnOverworld_call v) = StepVal.env_step v"
  by (simp add: TerminateOnOverworld_call_def)

lemma sparse_call_fields:
  "pixels (snd (TerminateOnSparseReward_call p v)) = pixels v
   \<and> truncated (snd (TerminateOnSparseReward_call p v)) = truncated v
   \<and> info (snd (TerminateOnSparseReward_call p v)) = info v
   \<and> StepVal.ep_step (snd (TerminateOnSparseReward_call p v)) = StepVal.ep_step v
   \<and> StepVal.env_step (snd (TerminateOnSparseReward_call p v)) = StepVal.env_step v"
  by (simp add: TerminateOnSparseReward_call_def Let_def)

lemma impatient_policy_fields:
  "termination_penalty impatient_policy = 10"
  "log_enabled impatient_policy"
  "max_size impatient_policy = 1"
  "history_len impatient_policy =
     \<lparr> x_0 = 0, x_1 = 1000000, y_0 = 360, y_1 = 1200, extrapolate = False \<rparr>"
  "reward_history impatient_policy = FIFO 1 [1]"
  by (simp_all add: impatient_policy_def TerminateOnSparseReward_init_def
      TerminateOnSparseReward_reset_def push_def)

lemma impatient_window:
  "py_int (get_value \<lparr> x_0 = 0, x_1 = 1000000, y_0 = 360, y_1 = 1200, extrapolate = False \<rparr> 1) =
     360"
proof -
  have "get_value \<lparr> x_0 = 0, x_1 = 1000000, y_0 = 360, y_1 = 1200, extrapolate = False \<rparr> 1 =
      36000084 / 100000"
    by (simp add: get_value_def)
  then have "py_int (get_value \<lparr> x_0 = 0, x_1 = 1000000, y_0 = 360, y_1 = 1200,
      extrapolate = False \<rparr> 1) = py_int (36000084 / 100000)"
    by (simp only:)
  also have "\<dots> = 360"
    by (simp add: py_int_divide_numeral)
  finally show ?thesis .
qed

lemma impatient_call:
  "TerminateOnSparseReward_call impatient_policy (example_step y) =
     (impatient_policy\<lparr>reward_history := FIFO 1 [0]\<rparr>,
      (example_step y)\<lparr>reward := - 10, terminated := True\<rparr>)"
  by (simp add: TerminateOnSparseReward_call_def Let_def example_step_def impatient_window
      impatient_policy_fields push_def)

text \<open>
  Claim C6 (as amended). Called with a reference to a \<open>StepVal\<close>, each policy writes to
  that object and returns the reference it was given: \<open>TerminateOnOverworld\<close> may set its
  \<open>terminated\<close>, \<open>TerminateOnSparseReward\<close> may set its \<open>terminated\<close> and lower its
  \<open>reward\<close>, and on every call it pushes the reward into its own \<open>reward_history\<close>. The
  fields \<open>pixels\<close>, \<open>truncated\<close>, \<open>info\<close>, \<open>StepVal.ep_step\<close> and \<open>StepVal.env_step\<close>
  of the step value are left as they were, and so is every object of the store other
  than the step value and the policy.
\<close>

theorem policies_update_in_place:
  assumes "h r = Some (StepObject v)" and "h s = Some (PolicyObject p)"
  shows "TerminateOnOverworld_call_ref h r =
           (h(r \<mapsto> StepObject (TerminateOnOverworld_call v)), r)
         \<and> TerminateOnSparseReward_call_ref h s r =
             (h(s \<mapsto> PolicyObject (fst (TerminateOnSparseReward_call p v)),
                r \<mapsto> StepObject (snd (TerminateOnSparseReward_call p v))), r)
         \<and> (\<forall>q. q \<noteq> r \<longrightarrow> fst (TerminateOnOverworld_call_ref h r) q = h q)
         \<and> (\<forall>q. q \<noteq> r \<and> q \<noteq> s \<longrightarrow> fst (TerminateOnSparseReward_call_ref h s r) q = h q)
         \<and> fst (TerminateOnSparseReward_call p v) =
             p\<lparr>reward_history :=
                 push (reward v) (py_int (get_value (history_len p) (of_int (StepVal.ep_step v))))
                   (reward_history p)\<rparr>
         \<and> pixels (TerminateOnOverworld_call v) = pixels v
         \<and> reward (TerminateOnOverworld_call v) = reward v
         \<and> truncated (TerminateOnOverworld_call v) = truncated v
         \<and> info (TerminateOnOverworld_call v) = info v
         \<and> StepVal.ep_step (TerminateOnOverworld_call v) = StepVal.ep_step v
         \<and> StepVal.env_step (TerminateOnOverworld_call v) = StepVal.env_step v
         \<and> pixels (snd (TerminateOnSparseReward_call p v)) = pixels v
         \<and> truncated (snd (TerminateOnSparseReward_call p v)) = truncated v
         \<and> info (snd (TerminateOnSparseReward_call p v)) = info v
         \<and> StepVal.ep_step (snd (TerminateOnSparseReward_call p v)) = StepVal.ep_step v
         \<and> StepVal.env_step (snd (TerminateOnSparseReward_call p v)) = StepVal.env_step v"
proof -
  from assms(1) have same: "h(r \<mapsto> StepObject v) = h"
    by (rule map_upd_triv)
  have over: "TerminateOnOverworld_call_ref h r =
      (h(r \<mapsto> StepObject (TerminateOnOverworld_call v)), r)"
    using assms(1) same
    by (simp add: TerminateOnOverworld_call_ref_def TerminateOnOverworld_call_def)
  have same2: "h(s \<mapsto> PolicyObject q, r \<mapsto> StepObject v) = h(s \<mapsto> PolicyObject q)" for q
    using assms by (auto simp: fun_eq_iff)
  have sparse: "TerminateOnSparseReward_call_ref h s r =
      (h(s \<mapsto> PolicyObject (fst (TerminateOnSparseReward_call p v)),
         r \<mapsto> StepObject (snd (TerminateOnSparseReward_call p v))), r)"
    using assms
    by (simp add: TerminateOnSparseReward_call_ref_def TerminateOnSparseReward_call_def Let_def
        same2)
  have hist: "fst (TerminateOnSparseReward_call p v) =
      p\<lparr>reward_history :=
          push (reward v) (py_int (get_value (history_len p) (of_int (StepVal.ep_step v))))
            (reward_history p)\<rparr>"
    by (simp add: TerminateOnSparseReward_call_def Let_def)
  have frame: "\<forall>q. q \<noteq> r \<longrightarrow> fst (TerminateOnOverworld_call_ref h r) q = h q"
    "\<forall>q. q \<noteq> r \<and> q \<noteq> s \<longrightarrow> fst (TerminateOnSparseReward_call_ref h s r) q = h q"
    by (simp_all add: over sparse)
  from over sparse frame hist show ?thesis
    using overworld_call_fields [of v] sparse_call_fields [of p v] by simp
qed

text \<open>
  A store of two step values and a policy with a window of one step. \<open>TerminateOnOverworld\<close>
  sets \<open>terminated\<close> of the object at 3, whose \<open>y\<close> is -81. \<open>TerminateOnSparseReward\<close>,
  called with the object at 4, replaces its own history \<open>[1]\<close> by \<open>[0]\<close>, lowers the reward
  of that object by 10 and sets its \<open>terminated\<close>; the object at 3 is as it was.
\<close>

theorem policies_update_in_place_witness:
  "[3 \<mapsto> StepObject (example_step (- 81)), 4 \<mapsto> StepObject (example_step (- 79)),
    5 \<mapsto> PolicyObject impatient_policy] (3 :: ref) = Some (StepObject (example_step (- 81)))
   \<and> TerminateOnOverworld_call_ref
         [3 \<mapsto> StepObject (example_step (- 81)), 4 \<mapsto> StepObject (example_step (- 79)),
          5 \<mapsto> PolicyObject impatient_policy] 3 =
       ([3 \<mapsto> StepObject ((example_step (- 81))\<lparr>terminated := True\<rparr>),
         4 \<mapsto> StepObject (example_step (- 79)), 5 \<mapsto> PolicyObject impatient_policy], 3)
   \<and> TerminateOnSparseReward_call_ref
         [3 \<mapsto> StepObject (example_step (- 81)), 4 \<mapsto> StepObject (example_step (- 79)),
          5 \<mapsto> PolicyObject impatient_policy] 5 4 =
       ([3 \<mapsto> StepObject (example_step (- 81)),
         4 \<mapsto> StepObject ((example_step (- 79))\<lparr>reward := - 10, terminated := True\<rparr>),
         5 \<mapsto> PolicyObject (impatient_policy\<lparr>reward_history := FIFO 1 [0]\<rparr>)], 4)
   \<and> reward_history impatient_policy = FIFO 1 [1]"
proof -
  define h :: store where "h = [3 \<mapsto> StepObject (example_step (- 81)),
      4 \<mapsto> StepObject (example_step (- 79)), 5 \<mapsto> PolicyObject impatient_policy]"
  have refs: "h 3 = Some (StepObject (example_step (- 81)))"
    "h 4 = Some (StepObject (example_step (- 79)))" "h 5 = Some (PolicyObject impatient_policy)"
    by (simp_all add: h_def)
  have o: "TerminateOnOverworld_call (example_step (- 81)) =
      (example_step (- 81))\<lparr>terminated := True\<rparr>"
    by (simp add: TerminateOnOverworld_call_def is_overworld_def example_step_def
        py_int_neg_numeral)
  have e1: "h(3 \<mapsto> x) =
      [3 \<mapsto> x, 4 \<mapsto> StepObject (example_step (- 79)), 5 \<mapsto> PolicyObject impatient_policy]"
    for x
    by (auto simp: h_def fun_eq_iff)
  have e2: "h(5 \<mapsto> x, 4 \<mapsto> y) = [3 \<mapsto> StepObject (example_step (- 81)), 4 \<mapsto> y, 5 \<mapsto> x]"
    for x y
    by (auto simp: h_def fun_eq_iff)
  have "TerminateOnOverworld_call_ref h 3 =
      (h(3 \<mapsto> StepObject ((example_step (- 81))\<lparr>terminated := True\<rparr>)), 3)"
    using policies_update_in_place [OF refs(1) refs(3)] by (simp add: o)
  moreover have "TerminateOnSparseReward_call_ref h 5 4 =
      (h(5 \<mapsto> PolicyObject (impatient_policy\<lparr>reward_history := FIFO 1 [0]\<rparr>),
         4 \<mapsto> StepObject ((example_step (- 79))\<lparr>reward := - 10, terminated := True\<rparr>)), 4)"
    using policies_update_in_place [OF refs(2) refs(3)] by (simp add: impatient_call)
  ultimately show ?thesis
    unfolding h_def [symmetric] using refs(1) by (simp add: e1 e2 impatient_policy_fields)
qed

text \<open>
  Claim C6 as stated fails: \<open>TerminateOnOverworld\<close> called on the object at reference 3,
  whose \<open>terminated\<close> is false and whose \<open>y\<close> is -81, returns reference 3 itself, and the
  object read through the caller's reference now has \<open>terminated\<close> set.
\<close>

theorem policies_update_in_place_counterexample:
  "TerminateOnOverworld_call_ref [3 \<mapsto> StepObject (example_step (- 81))] 3 =
     ([3 \<mapsto> StepObject ((example_step (- 81))\<lparr>terminated := True\<rparr>)], 3)
   \<and> terminated (example_step (- 81)) = False"
  by (simp add: TerminateOnOverworld_call_ref_def is_overworld_def example_step_def
      py_int_neg_numeral)

section \<open>The session controller: theorems\<close>

subsection \<open>The loop of \<open>step\<close>\<close>

lemma poll_loop_unfold:
  "poll_loop cfg inst polled init_info retries i =
     (if retries \<le> i then ([], Inl UnboundLocalError)
      else if run_rate cfg = 0 then ([SetSpeedup (run_rate cfg) inst], Inl ZeroDivisionError)
      else if step_duration cfg / run_rate cfg < 0
      then ([SetSpeedup (run_rate cfg) inst], Inl ValueError)
      else if tick (polled i) \<noteq> tick init_info
      then (poll_round cfg inst, Inr (Some (polled i)))
      else if i = retries - 1
      then (poll_round cfg inst @ [stall_warning inst], Inr None)
      else (poll_round cfg inst @ fst (poll_loop cfg inst polled init_info retries (Suc i)),
            snd (poll_loop cfg inst polled init_info retries (Suc i))))"
  by (subst poll_loop.simps) (simp add: Let_def)

lemma poll_loop_stall:
  assumes "run_rate cfg \<noteq> 0" and "0 \<le> step_duration cfg / run_rate cfg"
    and "\<forall>k. i \<le> k \<and> k < retries \<longrightarrow> tick (polled k) = tick init_info"
    and "i < retries"
  shows "poll_loop cfg inst polled init_info retries i =
           (concat (replicate (retries - i) (poll_round cfg inst)) @ [stall_warning inst],
            Inr None)"
  using assms(3,4)
proof (induction "retries - i" arbitrary: i)
  case 0
  then show ?case by simp
next
  case (Suc n)
  from Suc.prems have same: "tick (polled i) = tick init_info"
    by simp
  show ?case
  proof (cases "i = retries - 1")
    case True
    with Suc.prems(2) have "retries - i = 1"
      by simp
    with True Suc.prems(2) same assms(1,2) show ?thesis
      by (subst poll_loop_unfold) simp
  next
    case False
    with Suc.prems(2) have lt: "Suc i < retries"
      by simp
    with Suc.hyps(2) have n: "n = retries - Suc i"
      by simp
    from lt have split: "retries - i = Suc (retries - Suc i)"
      by simp
    from Suc.prems(1)
    have "\<forall>k. Suc i \<le> k \<and> k < retries \<longrightarrow> tick (polled k) = tick init_info"
      by simp
    from Suc.hyps(1) [OF n this lt] False Suc.prems(2) same assms(1,2) show ?thesis
      by (subst poll_loop_unfold) (simp add: split)
  qed
qed

lemma poll_loop_advance:
  assumes "run_rate cfg \<noteq> 0" and "0 \<le> step_duration cfg / run_rate cfg"
    and "\<forall>j. i \<le> j \<and> j < k \<longrightarrow> tick (polled j) = tick init_info"
    and "tick (polled k) \<noteq> tick init_info"
    and "i \<le> k" and "k < retries"
  shows "poll_loop cfg inst polled init_info retries i =
           (concat (replicate (Suc (k - i)) (poll_round cfg inst)), Inr (Some (polled k)))"
  using assms(3,5)
proof (induction "k - i" arbitrary: i)
  case 0
  then have "i = k"
    by simp
  with assms(1,2,4,6) show ?case
    by (subst poll_loop_unfold) simp
next
  case (Suc n)
  then have lt: "i < k"
    by simp
  with Suc.prems(1) have same: "tick (polled i) = tick init_info"
    by simp
  from lt assms(6) have ne: "i \<noteq> retries - 1" and ir: "\<not> retries \<le> i"
    by simp_all
  from Suc.hyps(2) have n: "n = k - Suc i"
    by simp
  from lt have split: "k - i = Suc (k - Suc i)"
    by simp
  from Suc.prems(1) have "\<forall>j. Suc i \<le> j \<and> j < k \<longrightarrow> tick (polled j) = tick init_info"
    by simp
  from Suc.hyps(1) [OF n this] lt same ne ir assms(1,2) show ?case
    by (subst poll_loop_unfold) (simp add: split)
qed

text \<open>The loop never polls more often than it has rounds.\<close>

lemma poll_loop_polls:
  "length (filter (\<lambda>e. e = OnTick) (fst (poll_loop cfg inst polled init_info retries i)))
     \<le> retries - i"
proof (induction cfg inst polled init_info retries i rule: poll_loop.induct)
  case (1 cfg inst polled init_info retries i)
  show ?case
  proof (cases "retries \<le> i \<or> run_rate cfg = 0 \<or> step_duration cfg / run_rate cfg < 0
      \<or> tick (polled i) \<noteq> tick init_info \<or> i = retries - 1")
    case True
    then show ?thesis
      by (subst poll_loop_unfold) (auto simp: poll_round_def stall_warning_def)
  next
    case False
    with "1.IH" have "length (filter (\<lambda>e. e = OnTick)
        (fst (poll_loop cfg inst polled init_info retries (Suc i)))) \<le> retries - Suc i"
      by simp
    with False show ?thesis
      by (subst poll_loop_unfold) (auto simp: poll_round_def)
  qed
qed

lemma idle_inputs:
  "apply_inputs input_space default_run_config released idle_action =
     (released\<lparr>mouse_pos := (PyFloat (Finite 320), PyFloat (Finite 180))\<rparr>, None)"
proof -
  have "map_result number_int [PyInt 0, PyInt 0, PyInt 0, PyInt 0, PyInt 0, PyInt 0, PyInt 0] =
      Inr [0, 0, 0, 0, 0, 0, 0]"
    by (simp add: number_int_def)
  moreover have "held_inputs (zip [0, 0, 0, 0, 0, 0, 0] input_space) ({}, {}) = Inr ({}, {})"
    by (simp add: input_space_def py_index_def)
  ultimately show ?thesis
    by (simp add: idle_action_def apply_inputs_def split_action_def default_centre released_def)
qed

lemma poll_rounds_polls:
  "length (filter (\<lambda>e. e = OnTick) (concat (replicate n (poll_round cfg inst)))) = n"
  by (induction n) (simp_all add: poll_round_def)

lemma str_int_digits: "str_int 0 = ''0''" "str_int 1 = ''1''"
  by (simp_all add: str_int_def str_nat.simps digit_char_def)

lemma default_window_first:
  "py_int (get_value \<lparr> x_0 = 0, x_1 = 1000000, y_0 = 360, y_1 = 1200, extrapolate = False \<rparr> 1) =
     360"
  by (rule impatient_window)

text \<open>What the default policies and the impatient ones do to the first step of an
  episode, when its reward is zero and the player is alive and underground.\<close>

lemma first_step_default:
  assumes "reward v = 0" and "StepVal.ep_step v = 1" and "\<not> is_overworld (info v)"
  shows "apply_wrappers [Overworld, SparseReward default_policy] v =
           ([Overworld, SparseReward (default_policy\<lparr>reward_history := FIFO 1200 [1, 0]\<rparr>)], v)"
    and "wrappers_prints [Overworld, SparseReward default_policy] v = []"
  using assms
  by (simp_all add: Let_def TerminateOnOverworld_call_def TerminateOnSparseReward_call_def
      TerminateOnSparseReward_prints_def default_policy_def TerminateOnSparseReward_init_def
      TerminateOnSparseReward_reset_def push_def default_window_first)

lemma first_step_impatient:
  assumes "reward v = 0" and "StepVal.ep_step v = 1" and "\<not> is_overworld (info v)"
  shows "apply_wrappers [Overworld, SparseReward impatient_policy] v =
           ([Overworld, SparseReward (impatient_policy\<lparr>reward_history := FIFO 1 [0]\<rparr>)],
            v\<lparr>reward := - 10, terminated := True\<rparr>)"
    and "wrappers_prints [Overworld, SparseReward impatient_policy] v =
           [Print ''Terminated episode due to sparse reward at step 1.'']"
  using assms
  by (simp_all add: Let_def TerminateOnOverworld_call_def TerminateOnSparseReward_call_def
      TerminateOnSparseReward_prints_def impatient_policy_def TerminateOnSparseReward_init_def
      TerminateOnSparseReward_reset_def push_def default_window_first str_int_digits)

text \<open>
  Claim C3. Once the inputs are applied, \<open>step\<close> runs at most 20 rounds, each of which
  sets the speed to \<open>run_rate\<close>, sleeps \<open>step_duration / run_rate\<close>, sets the speed to
  \<open>pause_rate\<close> and polls the info, in this order. It leaves the loop with the first poll
  whose tick differs from the tick read before the loop and goes on to the screen and
  the policies. When none of the 20 polls shows another tick it logs the warning and
  returns \<open>None\<close>: the trace holds exactly the 20 rounds and the warning, nothing is
  tried again, and no policy has been applied.
\<close>

theorem step_poll_loop:
  assumes "run_rate (run_config self) \<noteq> 0"
    and "0 \<le> step_duration (run_config self) / run_rate (run_config self)"
    and "harness self = Some kb"
    and "apply_inputs input_space (run_config self) kb a = (kb', None)"
  shows "length (filter (\<lambda>e. e = OnTick)
           (fst (poll_loop (run_config self) (instance_id self) (on_tick w) (current_info w) 20 0)))
           \<le> 20
         \<and> ((\<forall>j<20. tick (on_tick w j) = tick (current_info w)) \<longrightarrow>
              step w a self =
                (self\<lparr> ep_step := ep_step self + 1, env_step := env_step self + 1,
                       harness := Some kb',
                       trace := trace self @ [HarnessTick, CurrentInfo] @
                         concat (replicate 20
                           [SetSpeedup (run_rate (run_config self)) (instance_id self),
                            Sleep (step_duration (run_config self) / run_rate (run_config self)),
                            SetSpeedup (pause_rate (run_config self)) (instance_id self),
                            OnTick]) @
                         [Warning (''NoitaEnv: Failed to step the environment on instance: ''
                                   @ str_int (instance_id self) @ ''.'')] \<rparr>,
                 Inr None))
         \<and> (k < 20 \<and> tick (on_tick w k) \<noteq> tick (current_info w)
              \<and> (\<forall>j<k. tick (on_tick w j) = tick (current_info w)) \<longrightarrow>
              trace (fst (step w a self)) =
                trace self @ [HarnessTick, CurrentInfo] @
                concat (replicate (Suc k)
                  [SetSpeedup (run_rate (run_config self)) (instance_id self),
                   Sleep (step_duration (run_config self) / run_rate (run_config self)),
                   SetSpeedup (pause_rate (run_config self)) (instance_id self),
                   OnTick]) @
                [GetScreen] @
                wrappers_prints (step_wrappers self)
                  \<lparr> pixels = get_screen w, reward = reward_callback w (on_tick w k),
                    terminated = (\<not> is_alive (on_tick w k)), truncated = False,
                    info = on_tick w k, StepVal.ep_step = ep_step self + 1,
                    StepVal.env_step = env_step self + 1 \<rparr>
              \<and> step_wrappers (fst (step w a self)) =
                  fst (apply_wrappers (step_wrappers self)
                         \<lparr> pixels = get_screen w, reward = reward_callback w (on_tick w k),
                           terminated = (\<not> is_alive (on_tick w k)), truncated = False,
                           info = on_tick w k, StepVal.ep_step = ep_step self + 1,
                           StepVal.env_step = env_step self + 1 \<rparr>)
              \<and> snd (step w a self) =
                  (let out = snd (apply_wrappers (step_wrappers self)
                         \<lparr> pixels = get_screen w, reward = reward_callback w (on_tick w k),
                           terminated = (\<not> is_alive (on_tick w k)), truncated = False,
                           info = on_tick w k, StepVal.ep_step = ep_step self + 1,
                           StepVal.env_step = env_step self + 1 \<rparr>)
                   in Inr (Some (pixels out, reward out, terminated out \<or> truncated out,
                                 info out))))"
proof (intro conjI impI)
  let ?loop = "poll_loop (run_config self) (instance_id self) (on_tick w) (current_info w) 20 0"
  let ?round = "[SetSpeedup (run_rate (run_config self)) (instance_id self),
      Sleep (step_duration (run_config self) / run_rate (run_config self)),
      SetSpeedup (pause_rate (run_config self)) (instance_id self), OnTick]"
  let ?v = "\<lparr> pixels = get_screen w, reward = reward_callback w (on_tick w k),
      terminated = (\<not> is_alive (on_tick w k)), truncated = False,
      info = on_tick w k, StepVal.ep_step = ep_step self + 1,
      StepVal.env_step = env_step self + 1 \<rparr>"
  have round: "poll_round (run_config self) (instance_id self) = ?round"
    by (simp add: poll_round_def)
  show "length (filter (\<lambda>e. e = OnTick) (fst ?loop)) \<le> 20"
    using poll_loop_polls [of "run_config self" "instance_id self" "on_tick w" "current_info w" 20 0]
    by simp
  {
    assume "\<forall>j<20. tick (on_tick w j) = tick (current_info w)"
    then have "?loop =
        (concat (replicate (20 - 0) (poll_round (run_config self) (instance_id self))) @
         [stall_warning (instance_id self)], Inr None)"
      by (intro poll_loop_stall assms(1,2)) simp_all
    then have "?loop =
        (concat (replicate 20 ?round) @
         [Warning (''NoitaEnv: Failed to step the environment on instance: ''
                   @ str_int (instance_id self) @ ''.'')], Inr None)"
      by (simp only: round stall_warning_def diff_zero)
    then show "step w a self =
        (self\<lparr> ep_step := ep_step self + 1, env_step := env_step self + 1,
               harness := Some kb',
               trace := trace self @ [HarnessTick, CurrentInfo] @
                 concat (replicate 20 ?round) @
                 [Warning (''NoitaEnv: Failed to step the environment on instance: ''
                           @ str_int (instance_id self) @ ''.'')] \<rparr>,
         Inr None)"
      using assms(3,4) by (simp add: step_def Let_def)
  }
  {
    assume adv: "k < 20 \<and> tick (on_tick w k) \<noteq> tick (current_info w)
        \<and> (\<forall>j<k. tick (on_tick w j) = tick (current_info w))"
    then have "?loop =
        (concat (replicate (Suc (k - 0)) (poll_round (run_config self) (instance_id self))),
         Inr (Some (on_tick w k)))"
      by (intro poll_loop_advance assms(1,2)) simp_all
    then have loop: "?loop = (concat (replicate (Suc k) ?round), Inr (Some (on_tick w k)))"
      by (simp only: round diff_zero)
    show "trace (fst (step w a self)) =
        trace self @ [HarnessTick, CurrentInfo] @ concat (replicate (Suc k) ?round) @
        [GetScreen] @ wrappers_prints (step_wrappers self) ?v"
      using assms(3,4) loop by (simp add: step_def Let_def)
    show "step_wrappers (fst (step w a self)) = fst (apply_wrappers (step_wrappers self) ?v)"
      using assms(3,4) loop by (simp add: step_def Let_def)
    show "snd (step w a self) =
        (let out = snd (apply_wrappers (step_wrappers self) ?v)
         in Inr (Some (pixels out, reward out, terminated out \<or> truncated out, info out)))"
      using assms(3,4) loop by (simp add: step_def Let_def)
  }
qed

text \<open>
  With the default configuration a round is: speed 4, a sleep of \<open>0.166 / 4\<close> seconds, speed
  0.02, a poll. Against a game whose tick stands still \<open>step\<close> runs 20 such rounds, logs
  the warning and returns \<open>None\<close>, with the policies as they were. Against a game whose
  third poll shows a new tick it runs three rounds and reads the screen; the default
  policies print nothing, and a policy with a window of one step prints that it
  terminates the episode, after the screen is read.
\<close>

theorem step_poll_loop_witness:
  "run_rate (run_config running_env) \<noteq> 0
   \<and> harness running_env = Some released
   \<and> step stalled_world idle_action running_env =
       (running_env\<lparr> ep_step := 1, env_step := 1,
              harness := Some (released\<lparr>mouse_pos := (PyFloat (Finite 320), PyFloat (Finite 180))\<rparr>),
              trace := [HarnessTick, CurrentInfo] @
                concat (replicate 20
                  [SetSpeedup 4 0, Sleep (83 / 2000), SetSpeedup (1 / 50) 0, OnTick]) @
                [Warning ''NoitaEnv: Failed to step the environment on instance: 0.''] \<rparr>,
        Inr None)
   \<and> trace (fst (step ticking_world idle_action running_env)) =
       [HarnessTick, CurrentInfo,
        SetSpeedup 4 0, Sleep (83 / 2000), SetSpeedup (1 / 50) 0, OnTick,
        SetSpeedup 4 0, Sleep (83 / 2000), SetSpeedup (1 / 50) 0, OnTick,
        SetSpeedup 4 0, Sleep (83 / 2000), SetSpeedup (1 / 50) 0, OnTick,
        GetScreen]
   \<and> snd (step ticking_world idle_action running_env) =
       Inr (Some ([], 0, False, \<lparr>tick = 6, is_alive = True, info_y = 0\<rparr>))
   \<and> trace (fst (step ticking_world idle_action impatient_env)) =
       [HarnessTick, CurrentInfo,
        SetSpeedup 4 0, Sleep (83 / 2000), SetSpeedup (1 / 50) 0, OnTick,
        SetSpeedup 4 0, Sleep (83 / 2000), SetSpeedup (1 / 50) 0, OnTick,
        SetSpeedup 4 0, Sleep (83 / 2000), SetSpeedup (1 / 50) 0, OnTick,
        GetScreen, Print ''Terminated episode due to sparse reward at step 1.'']
   \<and> snd (step ticking_world idle_action impatient_env) =
       Inr (Some ([], - 10, True, \<lparr>tick = 6, is_alive = True, info_y = 0\<rparr>))"
proof -
  let ?v = "\<lparr> pixels = [], reward = 0, terminated = False, truncated = False,
      info = \<lparr>tick = 6, is_alive = True, info_y = 0\<rparr>, StepVal.ep_step = 1,
      StepVal.env_step = 1 \<rparr>"
  have cfg: "run_rate (run_config running_env) \<noteq> 0"
    "0 \<le> step_duration (run_config running_env) / run_rate (run_config running_env)"
    by (simp_all add: running_env_def default_run_config_def)
  have cfg': "run_rate (run_config impatient_env) \<noteq> 0"
    "0 \<le> step_duration (run_config impatient_env) / run_rate (run_config impatient_env)"
    by (simp_all add: impatient_env_def running_env_def default_run_config_def)
  have kb: "harness running_env = Some released" "harness impatient_env = Some released"
    by (simp_all add: impatient_env_def running_env_def)
  have inp: "apply_inputs input_space (run_config running_env) released idle_action =
      (released\<lparr>mouse_pos := (PyFloat (Finite 320), PyFloat (Finite 180))\<rparr>, None)"
    "apply_inputs input_space (run_config impatient_env) released idle_action =
      (released\<lparr>mouse_pos := (PyFloat (Finite 320), PyFloat (Finite 180))\<rparr>, None)"
    using idle_inputs by (simp_all add: impatient_env_def running_env_def)
  have stall: "\<forall>j<20. tick (on_tick stalled_world j) = tick (current_info stalled_world)"
    by (simp add: stalled_world_def)
  have adv: "(2::nat) < 20 \<and> tick (on_tick ticking_world 2) \<noteq> tick (current_info ticking_world)
      \<and> (\<forall>j<2. tick (on_tick ticking_world j) = tick (current_info ticking_world))"
    by (simp add: ticking_world_def)
  have v: "reward ?v = 0" "StepVal.ep_step ?v = 1" "\<not> is_overworld (info ?v)"
    by (simp_all add: is_overworld_def py_int_0)
  from step_poll_loop [OF cfg kb(1) inp(1), of stalled_world 0] stall
  have s: "step stalled_world idle_action running_env =
      (running_env\<lparr> ep_step := 1, env_step := 1,
             harness := Some (released\<lparr>mouse_pos := (PyFloat (Finite 320), PyFloat (Finite 180))\<rparr>),
             trace := [HarnessTick, CurrentInfo] @
               concat (replicate 20
                 [SetSpeedup 4 0, Sleep (83 / 2000), SetSpeedup (1 / 50) 0, OnTick]) @
               [Warning ''NoitaEnv: Failed to step the environment on instance: 0.''] \<rparr>,
       Inr None)"
    by (simp add: running_env_def default_run_config_def str_int_digits)
  from step_poll_loop [OF cfg kb(1) inp(1), of ticking_world 2] adv
  have t: "trace (fst (step ticking_world idle_action running_env)) =
      [HarnessTick, CurrentInfo,
       SetSpeedup 4 0, Sleep (83 / 2000), SetSpeedup (1 / 50) 0, OnTick,
       SetSpeedup 4 0, Sleep (83 / 2000), SetSpeedup (1 / 50) 0, OnTick,
       SetSpeedup 4 0, Sleep (83 / 2000), SetSpeedup (1 / 50) 0, OnTick,
       GetScreen]"
    and r: "snd (step ticking_world idle_action running_env) =
      Inr (Some ([], 0, False, \<lparr>tick = 6, is_alive = True, info_y = 0\<rparr>))"
    using first_step_default [OF v]
    by (simp_all add: running_env_def default_run_config_def ticking_world_def numeral_3_eq_3)
  from step_poll_loop [OF cfg' kb(2) inp(2), of ticking_world 2] adv
  have t': "trace (fst (step ticking_world idle_action impatient_env)) =
      [HarnessTick, CurrentInfo,
       SetSpeedup 4 0, Sleep (83 / 2000), SetSpeedup (1 / 50) 0, OnTick,
       SetSpeedup 4 0, Sleep (83 / 2000), SetSpeedup (1 / 50) 0, OnTick,
       SetSpeedup 4 0, Sleep (83 / 2000), SetSpeedup (1 / 50) 0, OnTick,
       GetScreen, Print ''Terminated episode due to sparse reward at step 1.'']"
    and r': "snd (step ticking_world idle_action impatient_env) =
      Inr (Some ([], - 10, True, \<lparr>tick = 6, is_alive = True, info_y = 0\<rparr>))"
    using first_step_impatient [OF v]
    by (simp_all add: impatient_env_def running_env_def default_run_config_def ticking_world_def
        numeral_3_eq_3)
  from cfg(1) kb(1) s t r t' r' show ?thesis
    by blast
qed

subsection \<open>Waiting for the harness\<close>

lemma wait_unfold:
  "wait_for_harness_init l k =
     (if ready l k then ([], True)
      else if 45000000 < elapsed_us l (Suc k) then (wait_round @ [timed_out], False)
      else (wait_round @ fst (wait_for_harness_init l (Suc k)),
            snd (wait_for_harness_init l (Suc k))))"
  by (subst wait_for_harness_init.simps) (simp add: Let_def wait_round_def timed_out_def)

lemma wait_timeout:
  assumes "\<forall>j. k \<le> j \<and> j < n \<longrightarrow> \<not> ready l j"
    and "\<forall>j. k < j \<and> j < n \<longrightarrow> elapsed_us l j \<le> 45000000"
    and "45000000 < elapsed_us l n"
    and "k < n"
  shows "wait_for_harness_init l k =
           (concat (replicate (n - k) wait_round) @ [timed_out], False)"
  using assms(1,2,4)
proof (induction "n - k" arbitrary: k)
  case 0
  then show ?case by simp
next
  case (Suc m)
  from Suc.prems have nr: "\<not> ready l k"
    by simp
  show ?case
  proof (cases "Suc k = n")
    case True
    then have "n - k = 1"
      by simp
    with True nr assms(3) show ?thesis
      by (subst wait_unfold) simp
  next
    case False
    with Suc.prems(3) have lt: "Suc k < n"
      by simp
    with Suc.prems(2) have el: "\<not> 45000000 < elapsed_us l (Suc k)"
      by (simp add: not_less)
    from Suc.hyps(2) have m: "m = n - Suc k"
      by simp
    from lt have split: "n - k = Suc (n - Suc k)"
      by simp
    from Suc.prems have "\<forall>j. Suc k \<le> j \<and> j < n \<longrightarrow> \<not> ready l j"
      and "\<forall>j. Suc k < j \<and> j < n \<longrightarrow> elapsed_us l j \<le> 45000000"
      by simp_all
    from Suc.hyps(1) [OF m this lt] nr el show ?thesis
      by (subst wait_unfold) (simp add: split)
  qed
qed

lemma wait_ready:
  assumes "\<forall>j. k \<le> j \<and> j < n \<longrightarrow> \<not> ready l j"
    and "\<forall>j. k < j \<and> j \<le> n \<longrightarrow> elapsed_us l j \<le> 45000000"
    and "ready l n"
    and "k \<le> n"
  shows "wait_for_harness_init l k = (concat (replicate (n - k) wait_round), True)"
  using assms(1,2,4)
proof (induction "n - k" arbitrary: k)
  case 0
  then have "k = n"
    by simp
  with assms(3) show ?case
    by (subst wait_unfold) simp
next
  case (Suc m)
  then have lt: "k < n"
    by simp
  with Suc.prems have nr: "\<not> ready l k" and el: "\<not> 45000000 < elapsed_us l (Suc k)"
    by (simp_all add: not_less)
  from Suc.hyps(2) have m: "m = n - Suc k"
    by simp
  from lt have split: "n - k = Suc (n - Suc k)"
    by simp
  from lt have le: "Suc k \<le> n"
    by simp
  from Suc.prems have "\<forall>j. Suc k \<le> j \<and> j < n \<longrightarrow> \<not> ready l j"
    and "\<forall>j. Suc k < j \<and> j \<le> n \<longrightarrow> elapsed_us l j \<le> 45000000"
    by simp_all
  from Suc.hyps(1) [OF m this le] nr el show ?case
    by (subst wait_unfold) (simp add: split)
qed

lemma wait_never_ready: "\<forall>j. \<not> ready l j \<Longrightarrow> \<not> snd (wait_for_harness_init l k)"
proof (induction l k rule: wait_for_harness_init.induct)
  case (1 l k)
  show ?case
  proof (cases "45000000 < elapsed_us l (Suc k)")
    case True
    with "1.prems" show ?thesis
      by (subst wait_unfold) simp
  next
    case False
    with "1.IH" "1.prems" have "\<not> snd (wait_for_harness_init l (Suc k))"
      by simp
    with False "1.prems" show ?thesis
      by (subst wait_unfold) simp
  qed
qed

lemma wait_ticks:
  "k \<le> 45 \<Longrightarrow>
     length (filter (\<lambda>e. e = HarnessTick) (fst (wait_for_harness_init l k))) \<le> 46 - k"
proof (induction l k rule: wait_for_harness_init.induct)
  case (1 l k)
  show ?case
  proof (cases "ready l k")
    case True
    then show ?thesis
      by (subst wait_unfold) simp
  next
    case nr: False
    show ?thesis
    proof (cases "45000000 < elapsed_us l (Suc k)")
      case True
      with nr "1.prems" show ?thesis
        by (subst wait_unfold) (simp add: wait_round_def timed_out_def)
    next
      case False
      then have le: "Suc k \<le> 45"
        by (simp add: elapsed_us_def)
      with "1.IH" nr False
      have "length (filter (\<lambda>e. e = HarnessTick) (fst (wait_for_harness_init l (Suc k))))
          \<le> 46 - Suc k"
        by simp
      with le nr False show ?thesis
        by (subst wait_unfold) (simp add: wait_round_def)
    qed
  qed
qed

subsection \<open>Reset attempts\<close>

lemma count_launches_append:
  "count_launches (xs @ ys) = count_launches xs + count_launches ys"
  by (simp add: count_launches_def)

lemma wait_launches: "count_launches (fst (wait_for_harness_init l k)) = 0"
proof (induction l k rule: wait_for_harness_init.induct)
  case (1 l k)
  show ?case
  proof (cases "ready l k \<or> 45000000 < elapsed_us l (Suc k)")
    case True
    then show ?thesis
      by (subst wait_unfold) (auto simp: count_launches_def wait_round_def timed_out_def)
  next
    case False
    with "1.IH" have "count_launches (fst (wait_for_harness_init l (Suc k))) = 0"
      by simp
    with False show ?thesis
      by (subst wait_unfold) (simp add: count_launches_append, simp add: count_launches_def wait_round_def)
  qed
qed

lemma try_reset_result: "snd (try_reset_env l skip_startup self) = snd (wait_for_harness_init l 0)"
  by (simp add: try_reset_env_def Let_def)

lemma try_reset_failed:
  assumes "\<not> snd (wait_for_harness_init l 0)"
  shows "fst (try_reset_env l skip_startup self) =
           self\<lparr> ep_step := 0, ep_num := ep_num self + 1,
                  step_wrappers := map wrapper_reset (step_wrappers self),
                  harness := None, state := Some UNKNOWN,
                  trace := trace self @ relaunch self @ fst (wait_for_harness_init l 0) @
                    [HarnessCleanup] \<rparr>"
  using assms by (simp add: try_reset_env_def Let_def relaunch_def split: option.split)

lemma try_reset_succeeded:
  assumes "snd (wait_for_harness_init l 0)"
  shows "fst (try_reset_env l skip_startup self) =
           env_init skip_startup
             (self\<lparr> ep_step := 0, ep_num := ep_num self + 1,
                    step_wrappers := map wrapper_reset (step_wrappers self),
                    harness := Some released, state := Some UNKNOWN,
                    trace := trace self @ relaunch self @ fst (wait_for_harness_init l 0) \<rparr>)"
  using assms by (simp add: try_reset_env_def Let_def relaunch_def split: option.split)

lemma env_init_fields:
  "ep_step (env_init skip_startup self) = ep_step self
   \<and> env_step (env_init skip_startup self) = env_step self
   \<and> state (env_init skip_startup self) = Some RUNNING
   \<and> count_launches (trace (env_init skip_startup self)) = count_launches (trace self)"
  by (simp add: env_init_def run_init_sequence_def count_launches_def)

lemma relaunch_launches: "count_launches (relaunch self) = 1"
  by (simp add: relaunch_def count_launches_def split: option.split)

lemma try_reset_fields:
  "ep_step (fst (try_reset_env l skip_startup self)) = 0
   \<and> env_step (fst (try_reset_env l skip_startup self)) = env_step self
   \<and> count_launches (trace (fst (try_reset_env l skip_startup self))) =
       Suc (count_launches (trace self))
   \<and> (snd (try_reset_env l skip_startup self) \<longrightarrow>
        state (fst (try_reset_env l skip_startup self)) = Some RUNNING)"
proof (cases "snd (wait_for_harness_init l 0)")
  case True
  then show ?thesis
    by (simp add: try_reset_result try_reset_succeeded env_init_fields count_launches_append
        relaunch_launches wait_launches)
next
  case False
  then show ?thesis
    by (simp add: try_reset_result try_reset_failed count_launches_append relaunch_launches
        wait_launches, simp add: count_launches_def)
qed

lemma reset_attempts_Suc:
  "reset_attempts launches skip_startup (Suc n) i self =
     (if snd (wait_for_harness_init (launches i) 0)
      then (fst (try_reset_env (launches i) skip_startup self), None)
      else reset_attempts launches skip_startup n (Suc i)
             ((fst (try_reset_env (launches i) skip_startup self))
                \<lparr>trace := trace (fst (try_reset_env (launches i) skip_startup self)) @ [retrying]\<rparr>))"
  by (simp add: Let_def try_reset_result retrying_def)

lemma reset_attempts_env_step:
  "env_step (fst (reset_attempts launches skip_startup n i self)) = env_step self"
proof (induction n arbitrary: i self)
  case 0
  then show ?case by simp
next
  case (Suc n)
  show ?case
    by (simp only: reset_attempts_Suc) (simp add: Suc.IH try_reset_fields)
qed

lemma reset_attempts_exhausted:
  assumes "\<forall>j<n. \<not> snd (wait_for_harness_init (launches (i + j)) 0)"
  shows "snd (reset_attempts launches skip_startup n i self) = Some RuntimeError
         \<and> count_launches (trace (fst (reset_attempts launches skip_startup n i self))) =
             count_launches (trace self) + n"
  using assms
proof (induction n arbitrary: i self)
  case 0
  then show ?case by simp
next
  case (Suc n)
  from Suc.prems have first: "\<not> snd (wait_for_harness_init (launches i) 0)"
    by (metis add.right_neutral zero_less_Suc)
  have rest: "\<forall>j<n. \<not> snd (wait_for_harness_init (launches (Suc i + j)) 0)"
  proof (intro allI impI)
    fix j
    assume "j < n"
    then have "Suc j < Suc n"
      by simp
    with Suc.prems have "\<not> snd (wait_for_harness_init (launches (i + Suc j)) 0)"
      by blast
    then show "\<not> snd (wait_for_harness_init (launches (Suc i + j)) 0)"
      by simp
  qed
  show ?case
    by (simp only: reset_attempts_Suc first if_False Suc.IH [OF rest])
      (simp add: count_launches_append try_reset_fields, simp add: count_launches_def retrying_def)
qed

lemma reset_attempts_succeeded:
  assumes "m < n" and "snd (wait_for_harness_init (launches (i + m)) 0)"
    and "\<forall>j<m. \<not> snd (wait_for_harness_init (launches (i + j)) 0)"
  shows "snd (reset_attempts launches skip_startup n i self) = None
         \<and> count_launches (trace (fst (reset_attempts launches skip_startup n i self))) =
             count_launches (trace self) + Suc m
         \<and> ep_step (fst (reset_attempts launches skip_startup n i self)) = 0
         \<and> state (fst (reset_attempts launches skip_startup n i self)) = Some RUNNING"
  using assms
proof (induction m arbitrary: n i self)
  case 0
  then obtain n' where n: "n = Suc n'"
    by (cases n) auto
  from 0 have ok: "snd (wait_for_harness_init (launches i) 0)"
    by simp
  then have "snd (try_reset_env (launches i) skip_startup self)"
    by (simp add: try_reset_result)
  with ok show ?case
    using try_reset_fields [of "launches i" skip_startup self]
    by (simp add: n reset_attempts_Suc del: reset_attempts.simps)
next
  case (Suc m)
  then obtain n' where n: "n = Suc n'" and m: "m < n'"
    by (cases n) auto
  from Suc.prems(3) have first: "\<not> snd (wait_for_harness_init (launches i) 0)"
    by (metis add.right_neutral zero_less_Suc)
  from Suc.prems(2) have ok: "snd (wait_for_harness_init (launches (Suc i + m)) 0)"
    by simp
  have rest: "\<forall>j<m. \<not> snd (wait_for_harness_init (launches (Suc i + j)) 0)"
  proof (intro allI impI)
    fix j
    assume "j < m"
    then have "Suc j < Suc m"
      by simp
    with Suc.prems(3) have "\<not> snd (wait_for_harness_init (launches (i + Suc j)) 0)"
      by blast
    then show "\<not> snd (wait_for_harness_init (launches (Suc i + j)) 0)"
      by simp
  qed
  show ?case
    unfolding n
    by (simp only: reset_attempts_Suc first if_False Suc.IH [OF m ok rest])
      (simp add: count_launches_append try_reset_fields, simp add: count_launches_def retrying_def)
qed

text \<open>
  Claim C4. While the harness is not ready an attempt calls \<open>tick()\<close> and sleeps one
  second, round after round, and gives up at the first check at which more than 45
  seconds have passed since it began, which is after at most 46 rounds. It then cleans
  the harness up, deletes it and returns \<open>False\<close>; nothing is raised. \<open>_reset_env\<close> makes up
  to three attempts, each with a harness of its own, returns at the first that succeeds
  and raises \<open>RuntimeError\<close> when all three have failed.
\<close>

theorem reset_retries:
  "((\<forall>j<n. \<not> ready l j) \<and> (\<forall>j. 0 < j \<and> j < n \<longrightarrow> elapsed_us l j \<le> 45000000)
      \<and> 45000000 < elapsed_us l n \<and> 0 < n \<longrightarrow>
      wait_for_harness_init l 0 = (concat (replicate n wait_round) @ [timed_out], False)
      \<and> n \<le> 46)
   \<and> ((\<forall>j. \<not> ready l j) \<longrightarrow> \<not> snd (wait_for_harness_init l 0))
   \<and> (\<not> snd (wait_for_harness_init l 0) \<longrightarrow>
        try_reset_env l skip_startup self =
          (self\<lparr> ep_step := 0, ep_num := ep_num self + 1,
                 step_wrappers := map wrapper_reset (step_wrappers self),
                 harness := None, state := Some UNKNOWN,
                 trace := trace self @ relaunch self @ fst (wait_for_harness_init l 0) @
                   [HarnessCleanup] \<rparr>,
           False))
   \<and> ((\<forall>i<3. \<not> snd (wait_for_harness_init (launches i) 0)) \<longrightarrow>
        snd (reset_env launches skip_startup self) = Some RuntimeError
        \<and> count_launches (trace (fst (reset_env launches skip_startup self))) =
            count_launches (trace self) + 3)
   \<and> (i < 3 \<and> snd (wait_for_harness_init (launches i) 0)
        \<and> (\<forall>j<i. \<not> snd (wait_for_harness_init (launches j) 0)) \<longrightarrow>
        snd (reset_env launches skip_startup self) = None
        \<and> count_launches (trace (fst (reset_env launches skip_startup self))) =
            count_launches (trace self) + Suc i)"
proof (intro conjI impI)
  let ?self = "self\<lparr>trace := trace self @ [SetSpeedup 1 (instance_id self)]\<rparr>"
  have speed: "count_launches (trace ?self) = count_launches (trace self)"
    by (simp add: count_launches_def)
  {
    assume a: "(\<forall>j<n. \<not> ready l j) \<and> (\<forall>j. 0 < j \<and> j < n \<longrightarrow> elapsed_us l j \<le> 45000000)
        \<and> 45000000 < elapsed_us l n \<and> 0 < n"
    then have "wait_for_harness_init l 0 =
        (concat (replicate (n - 0) wait_round) @ [timed_out], False)"
      by (intro wait_timeout) simp_all
    then show "wait_for_harness_init l 0 = (concat (replicate n wait_round) @ [timed_out], False)"
      by simp
    show "n \<le> 46"
    proof (rule ccontr)
      assume "\<not> n \<le> 46"
      then have "0 < (46::nat) \<and> 46 < n"
        by simp
      with a have "elapsed_us l 46 \<le> 45000000"
        by blast
      then show False
        by (simp add: elapsed_us_def)
    qed
  }
  show "\<not> snd (wait_for_harness_init l 0)" if "\<forall>j. \<not> ready l j"
    using that by (rule wait_never_ready)
  show "try_reset_env l skip_startup self =
      (self\<lparr> ep_step := 0, ep_num := ep_num self + 1,
             step_wrappers := map wrapper_reset (step_wrappers self),
             harness := None, state := Some UNKNOWN,
             trace := trace self @ relaunch self @ fst (wait_for_harness_init l 0) @
               [HarnessCleanup] \<rparr>,
       False)"
    if "\<not> snd (wait_for_harness_init l 0)"
    using that try_reset_failed [OF that, of skip_startup self]
      try_reset_result [of l skip_startup self]
    by (simp add: prod_eq_iff)
  {
    assume "\<forall>i<3. \<not> snd (wait_for_harness_init (launches i) 0)"
    then have "\<forall>j<3. \<not> snd (wait_for_harness_init (launches (0 + j)) 0)"
      by simp
    from reset_attempts_exhausted [OF this, of skip_startup ?self]
    show "snd (reset_env launches skip_startup self) = Some RuntimeError"
      and "count_launches (trace (fst (reset_env launches skip_startup self))) =
        count_launches (trace self) + 3"
      by (simp_all only: reset_env_def speed)
  }
  {
    assume a: "i < 3 \<and> snd (wait_for_harness_init (launches i) 0)
        \<and> (\<forall>j<i. \<not> snd (wait_for_harness_init (launches j) 0))"
    then have "i < 3" and "snd (wait_for_harness_init (launches (0 + i)) 0)"
      and "\<forall>j<i. \<not> snd (wait_for_harness_init (launches (0 + j)) 0)"
      by simp_all
    from reset_attempts_succeeded [OF this, of skip_startup ?self]
    show "snd (reset_env launches skip_startup self) = None"
      and "count_launches (trace (fst (reset_env launches skip_startup self))) =
        count_launches (trace self) + Suc i"
      by (simp_all only: reset_env_def speed)
  }
qed

lemma never_ready_times_out:
  "(\<forall>j<46. \<not> ready never_ready j)
   \<and> (\<forall>j. 0 < j \<and> j < 46 \<longrightarrow> elapsed_us never_ready j \<le> 45000000)
   \<and> 45000000 < elapsed_us never_ready 46 \<and> 0 < (46::nat)"
  by (simp add: never_ready_def elapsed_us_def)

lemma ready_at_3_waits:
  "wait_for_harness_init ready_at_3 0 = (concat (replicate 3 wait_round), True)"
proof -
  have "wait_for_harness_init ready_at_3 0 = (concat (replicate (3 - 0) wait_round), True)"
    by (rule wait_ready) (simp_all add: ready_at_3_def elapsed_us_def)
  then show ?thesis
    by simp
qed

theorem reset_retries_witness:
  "wait_for_harness_init never_ready 0 = (concat (replicate 46 wait_round) @ [timed_out], False)
   \<and> try_reset_env never_ready False running_env =
       (running_env\<lparr> ep_step := 0, ep_num := 2,
              step_wrappers := map wrapper_reset (step_wrappers running_env),
              harness := None, state := Some UNKNOWN,
              trace := relaunch running_env @ concat (replicate 46 wait_round) @
                [timed_out, HarnessCleanup] \<rparr>,
        False)
   \<and> snd (reset_env (\<lambda>i. never_ready) False running_env) = Some RuntimeError
   \<and> count_launches (trace (fst (reset_env (\<lambda>i. never_ready) False running_env))) = 3
   \<and> snd (reset_env third_time False running_env) = None
   \<and> count_launches (trace (fst (reset_env third_time
         False running_env))) = 3"
proof -
  note never = reset_retries [of 46 never_ready False running_env "\<lambda>i. never_ready" 0]
  note third = reset_retries [of 46 never_ready False running_env
      third_time 2]
  from never never_ready_times_out
  have w: "wait_for_harness_init never_ready 0 =
      (concat (replicate 46 wait_round) @ [timed_out], False)"
    by blast
  have t: "count_launches (trace running_env) = 0" "trace running_env = []"
    "ep_num running_env = 1"
    by (simp_all add: running_env_def count_launches_def)
  from never w have "try_reset_env never_ready False running_env =
      (running_env\<lparr> ep_step := 0, ep_num := ep_num running_env + 1,
             step_wrappers := map wrapper_reset (step_wrappers running_env),
             harness := None, state := Some UNKNOWN,
             trace := trace running_env @ relaunch running_env @
               fst (wait_for_harness_init never_ready 0) @ [HarnessCleanup] \<rparr>,
       False)"
    by simp
  then have a: "try_reset_env never_ready False running_env =
      (running_env\<lparr> ep_step := 0, ep_num := 2,
             step_wrappers := map wrapper_reset (step_wrappers running_env),
             harness := None, state := Some UNKNOWN,
             trace := relaunch running_env @ concat (replicate 46 wait_round) @
               [timed_out, HarnessCleanup] \<rparr>,
       False)"
    by (simp add: w t)
  from never w t have b: "snd (reset_env (\<lambda>i. never_ready) False running_env) = Some RuntimeError
      \<and> count_launches (trace (fst (reset_env (\<lambda>i. never_ready) False running_env))) = 3"
    by simp
  have prior: "\<forall>j<2. \<not> snd (wait_for_harness_init (third_time j) 0)"
    by (simp add: third_time_def w)
  have now: "snd (wait_for_harness_init (third_time 2) 0)"
    by (simp add: third_time_def ready_at_3_waits)
  from third prior now t
  have c: "snd (reset_env third_time False running_env) = None
      \<and> count_launches (trace (fst (reset_env third_time
            False running_env))) = 3"
    by simp
  from w a b c show ?thesis
    by blast
qed

subsection \<open>The counters\<close>

lemma step_env_step: "env_step (fst (step w a self)) = env_step self + 1"
  by (simp add: step_def Let_def split: option.split sum.split prod.split)

lemma reset_env_step: "env_step (fst (reset launches screen new_seed self)) = env_step self"
  by (simp add: reset_def reset_env_def Let_def reset_attempts_env_step split: option.split)

lemma perform_env_step: "env_step self \<le> env_step (perform op self)"
proof (cases op)
  case (Step w a)
  then show ?thesis
    by (simp add: step_env_step)
next
  case (Reset launches screen new_seed)
  then show ?thesis
    by (simp add: reset_env_step)
qed (simp_all add: close_def pause_def resume_def split: option.split)

lemma fold_perform_env_step: "env_step self \<le> env_step (fold perform ops self)"
proof (induction ops arbitrary: self)
  case Nil
  then show ?case by simp
next
  case (Cons op ops)
  have "env_step self \<le> env_step (perform op self)"
    by (rule perform_env_step)
  also have "\<dots> \<le> env_step (fold perform ops (perform op self))"
    by (rule Cons.IH)
  finally show ?case
    by simp
qed

lemma reset_attempts_None:
  "snd (reset_attempts launches skip_startup n i self) = None \<Longrightarrow>
     ep_step (fst (reset_attempts launches skip_startup n i self)) = 0
     \<and> state (fst (reset_attempts launches skip_startup n i self)) = Some RUNNING"
proof (induction n arbitrary: i self)
  case 0
  then show ?case by simp
next
  case (Suc n)
  show ?case
  proof (cases "snd (wait_for_harness_init (launches i) 0)")
    case True
    then have "snd (try_reset_env (launches i) skip_startup self)"
      by (simp add: try_reset_result)
    with True show ?thesis
      using try_reset_fields [of "launches i" skip_startup self]
      by (simp add: reset_attempts_Suc del: reset_attempts.simps)
  next
    case False
    with Suc.prems Suc.IH show ?thesis
      by (simp add: reset_attempts_Suc del: reset_attempts.simps)
  qed
qed

text \<open>
  Claim C9. No operation lowers \<open>env_step\<close>: \<open>step\<close> adds one to it, whether it returns a
  result, returns \<open>None\<close> or raises, and \<open>reset\<close>, \<open>close\<close>, \<open>pause\<close>, \<open>resume\<close> and
  \<open>run_info\<close> leave it alone; so it never decreases over any sequence of operations. A
  \<open>reset\<close> that returns, which it does exactly when one of its three attempts finds the
  harness ready, leaves \<open>ep_step\<close> at 0 and \<open>state\<close> at \<open>RUNNING\<close>.
\<close>

theorem counters_invariant:
  "env_step self \<le> env_step (fold perform ops self)
   \<and> env_step (fst (step w a self)) = env_step self + 1
   \<and> env_step (fst (reset launches screen new_seed self)) = env_step self
   \<and> env_step (fst (close self)) = env_step self
   \<and> env_step (fst (pause self)) = env_step self
   \<and> env_step (fst (resume self)) = env_step self
   \<and> (snd (reset launches screen new_seed self) = Inr screen \<longrightarrow>
        ep_step (fst (reset launches screen new_seed self)) = 0
        \<and> state (fst (reset launches screen new_seed self)) = Some RUNNING)
   \<and> (snd (reset launches screen new_seed self) = Inr screen) =
       (\<exists>i<3. snd (wait_for_harness_init (launches i) 0))"
proof (intro conjI impI)
  show "env_step self \<le> env_step (fold perform ops self)"
    by (rule fold_perform_env_step)
  show "env_step (fst (step w a self)) = env_step self + 1"
    by (rule step_env_step)
  show "env_step (fst (reset launches screen new_seed self)) = env_step self"
    by (rule reset_env_step)
  show "env_step (fst (close self)) = env_step self"
    and "env_step (fst (pause self)) = env_step self"
    and "env_step (fst (resume self)) = env_step self"
    by (simp_all add: close_def pause_def resume_def split: option.split)
  let ?self = "self\<lparr>seed := new_seed\<rparr>\<lparr>trace := trace (self\<lparr>seed := new_seed\<rparr>) @
      [SetSpeedup 1 (instance_id (self\<lparr>seed := new_seed\<rparr>))]\<rparr>"
  have ok: "(snd (reset launches screen new_seed self) = Inr screen) =
      (snd (reset_attempts launches False 3 0 ?self) = None)"
    by (simp add: reset_def reset_env_def Let_def split: option.split)
  {
    assume "snd (reset launches screen new_seed self) = Inr screen"
    with ok have none: "snd (reset_attempts launches False 3 0 ?self) = None"
      by simp
    from reset_attempts_None [OF none] none
    show "ep_step (fst (reset launches screen new_seed self)) = 0"
      and "state (fst (reset launches screen new_seed self)) = Some RUNNING"
      by (simp_all add: reset_def reset_env_def Let_def)
  }
  show "(snd (reset launches screen new_seed self) = Inr screen) =
      (\<exists>i<3. snd (wait_for_harness_init (launches i) 0))"
  proof (cases "\<exists>i<3. snd (wait_for_harness_init (launches i) 0)")
    case True
    define m where "m = (LEAST i. snd (wait_for_harness_init (launches i) 0))"
    from True obtain i where i: "i < 3" "snd (wait_for_harness_init (launches i) 0)"
      by blast
    then have m: "snd (wait_for_harness_init (launches m) 0)" and "m \<le> i"
      and least: "\<forall>j<m. \<not> snd (wait_for_harness_init (launches j) 0)"
      unfolding m_def by (auto intro: LeastI Least_le dest: not_less_Least)
    with i have "m < 3" and "snd (wait_for_harness_init (launches (0 + m)) 0)"
      and "\<forall>j<m. \<not> snd (wait_for_harness_init (launches (0 + j)) 0)"
      by simp_all
    from reset_attempts_succeeded [OF this, of False ?self] True ok show ?thesis
      by simp
  next
    case False
    then have "\<forall>j<3. \<not> snd (wait_for_harness_init (launches (0 + j)) 0)"
      by simp
    from reset_attempts_exhausted [OF this, of False ?self] False ok show ?thesis
      by simp
  qed
qed

theorem counters_invariant_witness:
  "snd (reset third_time [] 7
         (running_env\<lparr>ep_step := 12, env_step := 40\<rparr>)) = Inr []
   \<and> ep_step (fst (reset third_time [] 7
         (running_env\<lparr>ep_step := 12, env_step := 40\<rparr>))) = 0
   \<and> state (fst (reset third_time [] 7
         (running_env\<lparr>ep_step := 12, env_step := 40\<rparr>))) = Some RUNNING
   \<and> env_step (fst (reset third_time [] 7
         (running_env\<lparr>ep_step := 12, env_step := 40\<rparr>))) = 40
   \<and> env_step (fst (step stalled_world idle_action
         (running_env\<lparr>ep_step := 12, env_step := 40\<rparr>))) = 41"
proof -
  have "\<exists>i<3. snd (wait_for_harness_init (third_time i) 0)"
    by (rule exI [of _ 2]) (simp add: third_time_def ready_at_3_waits)
  with counters_invariant [of "running_env\<lparr>ep_step := 12, env_step := 40\<rparr>" "[]"
      stalled_world idle_action third_time "[]" 7]
  show ?thesis
    by simp
qed

section \<open>The time control channel: theorems\<close>

subsection \<open>The binary32 encoding\<close>

lemma fl32_exact:
  assumes "x = of_int k * 2 powi (e - 23)" and "\<bar>k\<bar> < 16777216" and "- 126 \<le> e" and "e \<le> 127"
  shows "fl32 x = Finite x"
  unfolding fl32_def using assms
  by (intro round_to_format_exact [where e = e and k = k]) simp_all

lemma fl32_range:
  assumes "fl32 x = Finite v"
  shows "\<exists>k e. v = of_int k * 2 powi (e - 23) \<and> \<bar>k\<bar> < 16777216 \<and> - 126 \<le> e \<and> e \<le> 127"
  using round_to_format_range [OF assms [unfolded fl32_def]] by simp

lemma fl32_nearest:
  assumes "fl32 x = Finite v"
    and "y = of_int k * 2 powi (e - 23)" and "\<bar>k\<bar> < 16777216" and "- 126 \<le> e"
  shows "\<bar>x - v\<bar> \<le> \<bar>x - y\<bar>"
  using assms(2-) by (intro round_to_format_nearest [OF assms(1) [unfolded fl32_def], of y k e]) simp_all

lemma bit_fields:
  fixes G r :: int
  assumes "0 \<le> G" and "G \<le> 254" and "0 \<le> r" and "r < 8388608"
  shows "(G * 8388608 + r) mod 2147483648 div 8388608 = G"
    and "(G * 8388608 + r) mod 8388608 = r"
    and "\<not> 2147483648 \<le> G * 8388608 + r"
    and "(2147483648 + (G * 8388608 + r)) mod 2147483648 div 8388608 = G"
    and "(2147483648 + (G * 8388608 + r)) mod 8388608 = r"
    and "2147483648 \<le> 2147483648 + (G * 8388608 + r)"
proof -
  define b where "b = G * 8388608 + r"
  from assms have range: "0 \<le> b" "b < 2147483648"
    by (simp_all add: b_def)
  then have small: "b mod 2147483648 = b"
    by simp
  have high: "b div 8388608 = G"
    unfolding b_def using assms(3,4) by simp
  then show "(G * 8388608 + r) mod 2147483648 div 8388608 = G"
    using small by (simp add: b_def)
  show low: "(G * 8388608 + r) mod 8388608 = r"
    using assms(3,4) by simp
  show "\<not> 2147483648 \<le> G * 8388608 + r"
    using range by (simp add: b_def)
  have "(2147483648 + b) mod 2147483648 = b"
    using small by simp
  then show "(2147483648 + (G * 8388608 + r)) mod 2147483648 div 8388608 = G"
    using high by (simp add: b_def)
  have "(2147483648 + b) mod 8388608 = (256 * 8388608 + b) mod 8388608"
    by simp
  also have "\<dots> = b mod 8388608"
    by (simp only: mod_mult_self3)
  finally show "(2147483648 + (G * 8388608 + r)) mod 8388608 = r"
    using low by (simp add: b_def)
  show "2147483648 \<le> 2147483648 + (G * 8388608 + r)"
    using range by (simp add: b_def)
qed

lemma decode32_of_fields:
  fixes G r :: int
  assumes "0 \<le> G" and "G \<le> 254" and "0 \<le> r" and "r < 8388608"
  shows "decode32 (G * 8388608 + r) =
           Finite (if G = 0 then of_int r * 2 powi (- 149)
                   else of_int (8388608 + r) * 2 powi (G - 150))"
    and "decode32 (2147483648 + (G * 8388608 + r)) =
           Finite (- (if G = 0 then of_int r * 2 powi (- 149)
                      else of_int (8388608 + r) * 2 powi (G - 150)))"
proof -
  from assms(2) have G: "G \<noteq> 255"
    by simp
  show "decode32 (G * 8388608 + r) =
      Finite (if G = 0 then of_int r * 2 powi (- 149)
              else of_int (8388608 + r) * 2 powi (G - 150))"
    by (simp only: decode32_def Let_def bit_fields [OF assms] G if_False)
  show "decode32 (2147483648 + (G * 8388608 + r)) =
      Finite (- (if G = 0 then of_int r * 2 powi (- 149)
                 else of_int (8388608 + r) * 2 powi (G - 150)))"
    by (simp only: decode32_def Let_def bit_fields [OF assms] G if_False if_True)
qed

lemma decode32_fields:
  assumes "0 < M" and "M < 16777216" and "- 126 \<le> E" and "E \<le> 127"
    and "- 126 < E \<longrightarrow> 8388608 \<le> M"
  shows "decode32 ((E + 126) * 8388608 + M) = Finite (of_int M * 2 powi (E - 23))
         \<and> decode32 (2147483648 + ((E + 126) * 8388608 + M)) =
             Finite (- (of_int M * 2 powi (E - 23)))"
proof (cases "8388608 \<le> M")
  case True
  define G where "G = E + 127"
  define r where "r = M - 8388608"
  have G: "0 \<le> G" "G \<le> 254" and r: "0 \<le> r" "r < 8388608"
    using True assms(2,3,4) by (simp_all add: G_def r_def)
  have bits: "(E + 126) * 8388608 + M = G * 8388608 + r"
    by (simp add: G_def r_def algebra_simps)
  have G1: "G \<noteq> 0" "G - 150 = E - 23" "8388608 + r = M"
    using G assms(3) by (simp_all add: G_def r_def)
  show ?thesis
    by (simp only: bits decode32_of_fields [OF G r] G1 if_False simp_thms)
next
  case False
  with assms(5) assms(3) have E: "E = - 126"
    by simp
  have G: "(0::int) \<le> 0" "(0::int) \<le> 254" and r: "0 \<le> M" "M < 8388608"
    using False assms(1) by simp_all
  have bits: "(E + 126) * 8388608 + M = 0 * 8388608 + M"
    by (simp add: E)
  have E1: "E - 23 = - 149"
    by (simp add: E)
  show ?thesis
    by (simp only: bits decode32_of_fields [OF G r] E1 if_True simp_thms)
qed

text \<open>The bit pattern of a binary32 number is a 32-bit word, and denotes the number.\<close>

lemma decode_encode32:
  assumes x: "x = of_int k * 2 powi (e - 23)" and k: "\<bar>k\<bar> < 16777216"
    and lo: "- 126 \<le> e" and hi: "e \<le> 127"
  shows "decode32 (encode32 (Finite x)) = Finite x
         \<and> 0 \<le> encode32 (Finite x) \<and> encode32 (Finite x) < 4294967296"
proof (cases "k = 0")
  case True
  with x show ?thesis
    by (simp add: encode32_def decode32_def)
next
  case False
  define a where "a = \<bar>x\<bar>"
  define E where "E = exponent_from (- 126) a 253"
  from x have x': "x = of_int k * 2 powi (e - int 23)"
    by simp
  from k have k': "\<bar>k\<bar> < 2 ^ Suc 23"
    by simp
  from hi have hi': "e \<le> - 126 + int 253"
    by simp
  from exponent_from_mantissa [OF x' k' False lo hi']
  obtain M where scaled: "a * 2 powi (23 - E) = of_int M" and M: "0 < M" "M < 16777216"
    and norm: "- 126 < E \<longrightarrow> 8388608 \<le> M" and E: "- 126 \<le> E" "E \<le> 127"
    and v: "a = of_int M * 2 powi (E - 23)"
    unfolding E_def a_def by auto
  from False have nz: "x \<noteq> 0"
    by (simp add: x)
  have "encode32 (Finite x) =
      (if x < 0 then 2147483648 + ((E + 126) * 8388608 + \<lfloor>a * 2 powi (23 - E)\<rfloor>)
       else (E + 126) * 8388608 + \<lfloor>a * 2 powi (23 - E)\<rfloor>)"
    unfolding encode32_def Let_def double.case a_def [symmetric] E_def [symmetric]
    using nz by (simp only: if_False)
  then have bits: "encode32 (Finite x) =
      (if x < 0 then 2147483648 + ((E + 126) * 8388608 + M) else (E + 126) * 8388608 + M)"
    by (simp only: scaled floor_of_int)
  have range: "0 \<le> (E + 126) * 8388608 + M" "(E + 126) * 8388608 + M < 2147483648"
    using M E by simp_all
  show ?thesis
  proof (cases "x < 0")
    case True
    then have "x = - a"
      by (simp add: a_def)
    with v have "Finite (- (of_int M * 2 powi (E - 23))) = Finite x"
      by simp
    with True range show ?thesis
      by (simp only: bits if_True decode32_fields [OF M E norm]) simp
  next
    case neg: False
    then have "x = a"
      by (simp add: a_def)
    with v have "Finite (of_int M * 2 powi (E - 23)) = Finite x"
      by simp
    with neg range show ?thesis
      by (simp only: bits if_False decode32_fields [OF M E norm]) simp
  qed
qed

lemma decode_encode_cast32:
  "decode32 (encode32 (cast32 d)) = cast32 d
   \<and> 0 \<le> encode32 (cast32 d) \<and> encode32 (cast32 d) < 4294967296"
proof -
  have special: "decode32 (encode32 c) = c \<and> 0 \<le> encode32 c \<and> encode32 c < 4294967296"
    if "c = NaN \<or> c = PosInf \<or> c = NegInf" for c
    using that by (auto simp: encode32_def decode32_def)
  have finite: "decode32 (encode32 (fl32 x)) = fl32 x
      \<and> 0 \<le> encode32 (fl32 x) \<and> encode32 (fl32 x) < 4294967296" for x
  proof (cases "fl32 x")
    case (Finite v)
    from fl32_range [OF this]
    obtain k e where "v = of_int k * 2 powi (e - 23)" "\<bar>k\<bar> < 16777216" "- 126 \<le> e" "e \<le> 127"
      by blast
    then show ?thesis
      unfolding Finite by (rule decode_encode32)
  qed (simp_all add: special)
  show ?thesis
    by (cases d) (simp_all add: cast32_def finite special)
qed

lemma unpack_f_bytes:
  fixes c0 c1 c2 c3 :: int
  assumes "0 \<le> c0" "c0 < 256" "0 \<le> c1" "c1 < 256" "0 \<le> c2" "c2 < 256" "0 \<le> c3" "c3 < 256"
  shows "unpack_f [nat c0, nat c1, nat c2, nat c3] =
           Some (decode32 (c0 + 256 * c1 + 65536 * c2 + 16777216 * c3))"
proof -
  from assms have "nat c0 < 256" "nat c1 < 256" "nat c2 < 256" "nat c3 < 256"
    by linarith+
  with assms show ?thesis
    by (simp add: unpack_f_def)
qed

lemma le_bytes:
  fixes b :: int
  assumes "0 \<le> b" and "b < 4294967296"
  shows "unpack_f [nat (b mod 256), nat (b div 256 mod 256), nat (b div 65536 mod 256),
                   nat (b div 16777216 mod 256)] = Some (decode32 b)"
proof -
  define q1 where "q1 = b div 256"
  define q2 where "q2 = q1 div 256"
  define q3 where "q3 = q2 div 256"
  have q2: "b div 65536 = q2"
    using zdiv_zmult2_eq [of 256 b 256] by (simp add: q1_def q2_def)
  have q3: "b div 16777216 = q3"
    using zdiv_zmult2_eq [of 256 b 65536] q2 by (simp add: q3_def)
  have "q3 < 256" and "0 \<le> q3"
    using assms by (simp_all add: q3 [symmetric] div_less_iff_less_mult pos_imp_zdiv_nonneg_iff)
  then have top: "q3 mod 256 = q3"
    by simp
  have "b = 256 * q1 + b mod 256" "q1 = 256 * q2 + q1 mod 256" "q2 = 256 * q3 + q2 mod 256"
    by (simp_all add: q1_def q2_def q3_def)
  then have sum: "b mod 256 + 256 * (q1 mod 256) + 65536 * (q2 mod 256) + 16777216 * (q3 mod 256) = b"
    unfolding top by linarith
  have "unpack_f [nat (b mod 256), nat (q1 mod 256), nat (q2 mod 256), nat (q3 mod 256)] =
      Some (decode32 (b mod 256 + 256 * (q1 mod 256) + 65536 * (q2 mod 256)
                      + 16777216 * (q3 mod 256)))"
    by (rule unpack_f_bytes) simp_all
  then show ?thesis
    by (simp only: sum q1_def [symmetric] q2 q3)
qed

text \<open>
  Every number that is a float or has one is packed into four bytes, which denote the
  float cast to binary32; nothing is raised.
\<close>

lemma pack_f_unpack:
  assumes "to_double m = Inr d"
  shows "\<exists>bytes. pack_f m = Inr bytes \<and> length bytes = 4 \<and> unpack_f bytes = Some (cast32 d)"
  using assms decode_encode_cast32 [of d] by (simp add: pack_f_def Let_def le_bytes)

lemma pack_f_length: "pack_f m = Inr bytes \<Longrightarrow> length bytes = 4"
  by (auto simp: pack_f_def Let_def split: sum.splits)

lemma cast32_overflow:
  "2 ^ 128 \<le> \<bar>x\<bar> \<Longrightarrow> cast32 (Finite x) = (if x < 0 then NegInf else PosInf)"
  using round_to_format_overflow [of "- 126" 253 x 23] by (simp add: cast32_def fl32_def)

lemma to_double_overflow: "2 ^ 1024 \<le> \<bar>k\<bar> \<Longrightarrow> to_double (PyInt k) = Inl OverflowError"
proof -
  assume "2 ^ 1024 \<le> \<bar>k\<bar>"
  then have "(of_int (2 ^ 1024) :: rat) \<le> of_int \<bar>k\<bar>"
    by (simp only: of_int_le_iff)
  then have "2 powi (- 1022 + int 2045 + 1) \<le> \<bar>of_int k :: rat\<bar>"
    by simp
  from round_to_format_overflow [OF this, of 52] show ?thesis
    by (simp add: to_double_def fl64_def)
qed

subsection \<open>Values\<close>

lemma encode32_5_2: "encode32 (Finite (5 / 2)) = 1075838976"
proof -
  have "exponent_from (- 126) (5 / 2) 253 = 1"
    by (rule exponent_from_eq) simp_all
  then show ?thesis
    by (simp add: encode32_def)
qed

lemma encode32_4: "encode32 (Finite 4) = 1082130432"
proof -
  have "exponent_from (- 126) 4 253 = 2"
    by (rule exponent_from_eq) simp_all
  then show ?thesis
    by (simp add: encode32_def)
qed

lemma cast32_values: "cast32 (Finite (5 / 2)) = Finite (5 / 2)" "cast32 (Finite 4) = Finite 4"
  using fl32_exact [of "5 / 2" 5 22] fl32_exact [of 4 4 23] by (simp_all add: cast32_def)

lemma pack_f_5_2: "pack_f (PyFloat (Finite (5 / 2))) = Inr [0, 0, 32, 64]"
  by (simp add: pack_f_def to_double_float cast32_values encode32_5_2)

lemma pack_f_4: "pack_f (PyInt 4) = Inr [0, 0, 128, 64]"
proof -
  have "to_double (PyInt 4) = Inr (Finite 4)"
    using to_double_exact [of "PyInt 4" 4] by (simp add: value_of_def representable_numeral)
  then show ?thesis
    by (simp add: pack_f_def cast32_values encode32_4)
qed

lemma pack_f_huge_float: "pack_f (PyFloat (Finite (2 ^ 128))) = Inr [0, 0, 128, 127]"
  by (simp add: pack_f_def to_double_float cast32_overflow encode32_def)

lemma pack_f_huge_int: "pack_f (PyInt (2 ^ 1024)) = Inl StructError"
  by (simp add: pack_f_def to_double_overflow)

subsection \<open>The artifact\<close>

lemma SetSpeedup_file:
  "fst (time_writer_SetSpeedup m fs) ''/tmp/time_control'' =
     Some (case pack_f m of Inl e \<Rightarrow> [] | Inr bytes \<Rightarrow> bytes)"
  by (simp add: time_writer_SetSpeedup_def split: sum.split)

lemma SetSpeedup_other:
  "path \<noteq> ''/tmp/time_control'' \<Longrightarrow> fst (time_writer_SetSpeedup m fs) path = fs path"
  by (simp add: time_writer_SetSpeedup_def split: sum.split)

lemma SetSpeedups_snoc:
  "SetSpeedups (ms @ [m]) fs = fst (time_writer_SetSpeedup m (SetSpeedups ms fs))"
  by (simp add: SetSpeedups_def)

text \<open>
  Claim C8 (as amended). \<open>SetSpeedup\<close> packs the multiplier into the four bytes of its
  binary32 value, least significant first, and overwrites the one file
  \<open>/tmp/time_control\<close>: after \<open>SetSpeedup(2.5)\<close> the file holds \<open>00 00 20 40\<close>. The
  bytes of every float, and of every int that has a float, denote the float cast to
  binary32, which is the float itself when it is a binary32 number, otherwise a nearest
  binary32 number, or an infinity from \<open>2 ^ 128\<close> on; nothing is raised. The last
  write wins, whoever made it: the function has no instance, and no other file is
  written.
\<close>

theorem SetSpeedup_artifact:
  "time_writer_SetSpeedup (PyFloat (Finite (5 / 2))) fs =
     (fs(''/tmp/time_control'' \<mapsto> [0, 0, 32, 64]), None)
   \<and> (to_double m = Inr d \<longrightarrow>
        (\<exists>bytes. time_writer_SetSpeedup m fs = (fs(''/tmp/time_control'' \<mapsto> bytes), None)
           \<and> length bytes = 4 \<and> unpack_f bytes = Some (cast32 d)))
   \<and> (y = of_int k * 2 powi (e - 23) \<and> \<bar>k\<bar> < 2 ^ 24 \<and> - 126 \<le> e \<and> e \<le> 127 \<longrightarrow>
        cast32 (Finite y) = Finite y
        \<and> (cast32 (Finite x) = Finite v \<longrightarrow> \<bar>x - v\<bar> \<le> \<bar>x - y\<bar>))
   \<and> (2 ^ 128 \<le> \<bar>x\<bar> \<longrightarrow> cast32 (Finite x) = (if x < 0 then NegInf else PosInf))
   \<and> (path \<noteq> ''/tmp/time_control'' \<longrightarrow> fst (time_writer_SetSpeedup m fs) path = fs path)
   \<and> (pack_f m = Inr bytes \<longrightarrow>
        fst (time_writer_SetSpeedup m (fst (time_writer_SetSpeedup m' fs))) ''/tmp/time_control'' =
          Some bytes
        \<and> SetSpeedups (ms @ [m]) fs ''/tmp/time_control'' = Some bytes)"
proof (intro conjI impI)
  show "time_writer_SetSpeedup (PyFloat (Finite (5 / 2))) fs =
      (fs(''/tmp/time_control'' \<mapsto> [0, 0, 32, 64]), None)"
    by (simp add: time_writer_SetSpeedup_def pack_f_5_2)
  show "\<exists>bytes. time_writer_SetSpeedup m fs = (fs(''/tmp/time_control'' \<mapsto> bytes), None)
      \<and> length bytes = 4 \<and> unpack_f bytes = Some (cast32 d)"
    if "to_double m = Inr d"
    using pack_f_unpack [OF that] by (auto simp: time_writer_SetSpeedup_def)
  {
    assume y: "y = of_int k * 2 powi (e - 23) \<and> \<bar>k\<bar> < 2 ^ 24 \<and> - 126 \<le> e \<and> e \<le> 127"
    then show "cast32 (Finite y) = Finite y"
      using fl32_exact [of y k e] by (simp add: cast32_def)
    show "\<bar>x - v\<bar> \<le> \<bar>x - y\<bar>" if "cast32 (Finite x) = Finite v"
      using that y fl32_nearest [of x v y k e] by (simp add: cast32_def)
  }
  show "cast32 (Finite x) = (if x < 0 then NegInf else PosInf)" if "2 ^ 128 \<le> \<bar>x\<bar>"
    using that by (rule cast32_overflow)
  show "fst (time_writer_SetSpeedup m fs) path = fs path" if "path \<noteq> ''/tmp/time_control''"
    using that by (rule SetSpeedup_other)
  {
    assume "pack_f m = Inr bytes"
    then show "fst (time_writer_SetSpeedup m (fst (time_writer_SetSpeedup m' fs)))
        ''/tmp/time_control'' = Some bytes"
      and "SetSpeedups (ms @ [m]) fs ''/tmp/time_control'' = Some bytes"
      by (simp_all add: SetSpeedup_file SetSpeedups_snoc)
  }
qed

text \<open>
  The int 4 is written as \<open>00 00 80 40\<close>, which is read back as 4.0; the float \<open>2 ^ 128\<close>,
  too large for binary32, is written as the bytes of the infinity, and no exception is
  raised. Written after 4 and 1, the bytes of 2.5 are what the file holds.
\<close>

theorem SetSpeedup_artifact_witness:
  "to_double (PyInt 4) = Inr (Finite 4)
   \<and> time_writer_SetSpeedup (PyInt 4) Map.empty = ([''/tmp/time_control'' \<mapsto> [0, 0, 128, 64]], None)
   \<and> unpack_f [0, 0, 128, 64] = Some (Finite 4)
   \<and> unpack_f [0, 0, 32, 64] = Some (Finite (5 / 2))
   \<and> time_writer_SetSpeedup (PyFloat (Finite (2 ^ 128))) Map.empty =
       ([''/tmp/time_control'' \<mapsto> [0, 0, 128, 127]], None)
   \<and> unpack_f [0, 0, 128, 127] = Some PosInf
   \<and> SetSpeedups ([PyInt 4, PyInt 1] @ [PyFloat (Finite (5 / 2))]) Map.empty ''/tmp/time_control'' =
       Some [0, 0, 32, 64]"
proof -
  have four: "to_double (PyInt 4) = Inr (Finite 4)"
    using to_double_exact [of "PyInt 4" 4] by (simp add: value_of_def representable_numeral)
  note a = SetSpeedup_artifact [of Map.empty "PyInt 4" "Finite 4"]
  note b = SetSpeedup_artifact [of Map.empty "PyFloat (Finite (5 / 2))" "Finite (5 / 2)"
      _ _ _ _ _ _ "[0, 0, 32, 64]" _ "[PyInt 4, PyInt 1]"]
  note c = SetSpeedup_artifact [of Map.empty "PyFloat (Finite (2 ^ 128))" "Finite (2 ^ 128)"
      _ _ _ "2 ^ 128"]
  from a [THEN conjunct2, THEN conjunct1] four
  have "\<exists>bytes. time_writer_SetSpeedup (PyInt 4) Map.empty =
      ([''/tmp/time_control'' \<mapsto> bytes], None) \<and> unpack_f bytes = Some (cast32 (Finite 4))"
    by blast
  then have w4: "time_writer_SetSpeedup (PyInt 4) Map.empty =
      ([''/tmp/time_control'' \<mapsto> [0, 0, 128, 64]], None)"
    and u4: "unpack_f [0, 0, 128, 64] = Some (Finite 4)"
    by (auto simp: time_writer_SetSpeedup_def pack_f_4 cast32_values dest: map_upd_eqD1)
  from b [THEN conjunct2, THEN conjunct1]
  have "\<exists>bytes. time_writer_SetSpeedup (PyFloat (Finite (5 / 2))) Map.empty =
      ([''/tmp/time_control'' \<mapsto> bytes], None)
      \<and> unpack_f bytes = Some (cast32 (Finite (5 / 2)))"
    by (auto simp: to_double_float)
  then have u5: "unpack_f [0, 0, 32, 64] = Some (Finite (5 / 2))"
    by (auto simp: time_writer_SetSpeedup_def pack_f_5_2 cast32_values dest: map_upd_eqD1)
  from b [THEN conjunct2, THEN conjunct2, THEN conjunct2, THEN conjunct2, THEN conjunct2]
  have last: "SetSpeedups ([PyInt 4, PyInt 1] @ [PyFloat (Finite (5 / 2))]) Map.empty
      ''/tmp/time_control'' = Some [0, 0, 32, 64]"
    using pack_f_5_2 by blast
  from c [THEN conjunct2, THEN conjunct1]
  have "\<exists>bytes. time_writer_SetSpeedup (PyFloat (Finite (2 ^ 128))) Map.empty =
      ([''/tmp/time_control'' \<mapsto> bytes], None)
      \<and> unpack_f bytes = Some (cast32 (Finite (2 ^ 128)))"
    by (auto simp: to_double_float)
  moreover from c [THEN conjunct2, THEN conjunct2, THEN conjunct2, THEN conjunct1]
  have "cast32 (Finite (2 ^ 128)) = PosInf"
    by simp
  ultimately have "\<exists>bytes. time_writer_SetSpeedup (PyFloat (Finite (2 ^ 128))) Map.empty =
      ([''/tmp/time_control'' \<mapsto> bytes], None) \<and> unpack_f bytes = Some PosInf"
    by simp
  then have inf: "time_writer_SetSpeedup (PyFloat (Finite (2 ^ 128))) Map.empty =
      ([''/tmp/time_control'' \<mapsto> [0, 0, 128, 127]], None)"
    and uinf: "unpack_f [0, 0, 128, 127] = Some PosInf"
    by (auto simp: time_writer_SetSpeedup_def pack_f_huge_float [simplified] dest: map_upd_eqD1)
  from four w4 u4 u5 inf uinf last show ?thesis
    by blast
qed

text \<open>
  Claim C8 as stated fails for the \<open>SetSpeedup\<close> of the sources, which has one file for
  all instances: once the environment of instance 3 has written 2.5 and the environment
  of instance 0 has written 4, what is read is the encoding of 4, not that of 2.5.
\<close>

theorem SetSpeedup_artifact_counterexample:
  "SetSpeedups [PyFloat (Finite (5 / 2)), PyInt 4] Map.empty ''/tmp/time_control'' =
     Some [0, 0, 128, 64]
   \<and> pack_f (PyFloat (Finite (5 / 2))) = Inr [0, 0, 32, 64]"
  by (simp add: SetSpeedups_def SetSpeedup_file pack_f_4 pack_f_5_2)

text \<open>An int too large for a float is refused by \<open>struct.pack\<close>, after the file has been
  opened: the file is left empty.\<close>

lemma SetSpeedup_refused:
  "time_writer_SetSpeedup (PyInt (2 ^ 1024)) fs = (fs(''/tmp/time_control'' \<mapsto> []), Some StructError)"
  unfolding time_writer_SetSpeedup_def pack_f_huge_int by simp

text \<open>
  The two-argument function the specification describes writes the artifact of the
  instance it names, and no other.
\<close>

lemma set_speed_per_instance:
  "pack_f m = Inr bytes \<Longrightarrow> set_speed m i artifacts = (artifacts(i \<mapsto> bytes), None)"
  "i \<noteq> j \<Longrightarrow> fst (set_speed m i artifacts) j = artifacts j"
  by (simp_all add: set_speed_def split: sum.split)

end
